theory Spec2Isabelle
  imports Main "HOL-Library.Char_ord" "HOL-Library.List_Lexorder"
begin

section \<open>sync_services.py: events, reference table, service catalog\<close>

text \<open>
  The script reads services from Datadog events, reads their teams from a reference table,
  creates rows for the services that have none and writes one service definition per
  service. Every function of \<^verbatim>\<open>src/sync_services.py\<close> that the properties below are about
  is translated here. Strings are \<open>string\<close> (bytes; Python compares strings by code
  point, which is the byte order of their UTF-8 form, so \<open>sorted\<close> is \<open>sort\<close> in the
  lexicographic order of \<open>char list\<close>). Status codes and page numbers are \<open>int\<close>, counters
  are \<open>nat\<close>, a \<open>dict\<close> is a map, or an association list where its insertion order is
  iterated.
\<close>

subsection \<open>The network\<close>

text \<open>
  \<open>requests.post\<close> and \<open>requests.get\<close> talk to three remote services. The remote side is
  a parameter of the model: a record of four functions over a state \<open>'w\<close> of the remote
  world, each taking the request and returning the response and the next world. The model
  itself keeps the list of the requests it has issued, each with the status it got back.
\<close>

record event =
  ev_service :: "string option"
  ev_tags :: "string list"

text \<open>
  \<open>ev_service\<close> is \<open>attributes.attributes.service\<close> (\<open>None\<close> when a level is absent or
  null), \<open>ev_tags\<close> is \<open>attributes.tags\<close> (\<open>[]\<close> when absent or null). Values of these
  fields that are not strings are outside the model.
\<close>

datatype page_field = PageMissing | PageNull | PageObj "string option"

datatype meta_field = MetaMissing | MetaObj page_field

text \<open>
  The paging metadata of an events response. \<open>MetaMissing\<close>: \<open>meta\<close> is absent, null or
  empty. \<open>PageMissing\<close>: \<open>meta\<close> has no key \<open>page\<close>. \<open>PageNull\<close>: \<open>meta.page\<close> is null.
  \<open>PageObj a\<close>: \<open>meta.page\<close> is an object whose \<open>after\<close> is \<open>a\<close> (\<open>None\<close> when absent
  or null).
\<close>

record events_response =
  er_status :: int
  er_events :: "event list"
  er_meta :: meta_field

type_synonym bag = "(string \<times> string) list"

record row_item =
  attr_values :: bag
  attr_value :: bag
  attr_columns :: bag
  attr_rest :: bag

text \<open>
  One item of a rows response: the objects under \<open>attributes.values\<close>, \<open>attributes.value\<close>
  and \<open>attributes.columns\<close> (\<open>[]\<close> when absent, null or empty) and the string-valued keys
  of \<open>attributes\<close> itself.
\<close>

record rows_response =
  rr_status :: int
  rr_text :: string
  rr_not_found :: bool
  rr_data :: "row_item list"

text \<open>
  \<open>rr_not_found\<close> says that the body is JSON and its \<open>meta.not_found\<close> is not null.
\<close>

datatype call =
    EventsSearch "string option"
  | RowsGet "string list"
  | RowsPost string string
  | DefinitionsPost string string

record 'w env =
  events_search :: "'w \<Rightarrow> string option \<Rightarrow> events_response \<times> 'w"
  rows_get :: "'w \<Rightarrow> string list \<Rightarrow> rows_response \<times> 'w"
  rows_post :: "'w \<Rightarrow> string \<Rightarrow> string \<Rightarrow> (int \<times> string) \<times> 'w"
  definitions_post :: "'w \<Rightarrow> string \<Rightarrow> string \<Rightarrow> (int \<times> string) \<times> 'w"

record 'w io =
  world :: 'w
  calls :: "(call \<times> int) list"

datatype error =
    Unauthorized
  | HTTPError int
  | RowsEndpointNotFound
  | RowsRequestFailed int string
  | AttributeError

definition post_events :: "'w env \<Rightarrow> string option \<Rightarrow> 'w io \<Rightarrow> events_response \<times> 'w io" where
  "post_events e cursor s =
     (let (resp, w) = events_search e (world s) cursor
      in (resp, \<lparr>world = w, calls = calls s @ [(EventsSearch cursor, er_status resp)]\<rparr>))"

definition get_rows :: "'w env \<Rightarrow> string list \<Rightarrow> 'w io \<Rightarrow> rows_response \<times> 'w io" where
  "get_rows e chunk s =
     (let (resp, w) = rows_get e (world s) chunk
      in (resp, \<lparr>world = w, calls = calls s @ [(RowsGet chunk, rr_status resp)]\<rparr>))"

definition post_row :: "'w env \<Rightarrow> string \<Rightarrow> string \<Rightarrow> 'w io \<Rightarrow> (int \<times> string) \<times> 'w io" where
  "post_row e service team s =
     (let (resp, w) = rows_post e (world s) service team
      in (resp, \<lparr>world = w, calls = calls s @ [(RowsPost service team, fst resp)]\<rparr>))"

definition post_definition :: "'w env \<Rightarrow> string \<Rightarrow> string \<Rightarrow> 'w io \<Rightarrow> (int \<times> string) \<times> 'w io" where
  "post_definition e service team s =
     (let (resp, w) = definitions_post e (world s) service team
      in (resp, \<lparr>world = w, calls = calls s @ [(DefinitionsPost service team, fst resp)]\<rparr>))"

subsection \<open>Small helpers\<close>

definition teams :: "string list" where
  "teams = [''team 1'', ''team 2'']"

text \<open>
  \<open>assign_dummy_teams\<close>: \<open>enumerate(sorted(set(s for s in services if s)))\<close>, each
  service given \<open>teams[idx % len(teams)]\<close>. The dict that is returned is the association
  list of its items in insertion order.
\<close>

definition assign_dummy_teams :: "string list \<Rightarrow> (string \<times> string) list" where
  "assign_dummy_teams services =
     map (\<lambda>(idx, service). (service, teams ! (idx mod length teams)))
       (enumerate 0 (sort (remdups (filter (\<lambda>s. s \<noteq> []) services))))"

definition bag_get :: "bag \<Rightarrow> string \<Rightarrow> string" where
  "bag_get values col = (case map_of values col of None \<Rightarrow> [] | Some v \<Rightarrow> v)"

text \<open>\<open>_extract_row_values\<close>: the first non-empty of the three aliases, else \<open>attributes\<close>.\<close>

definition extract_row_values :: "row_item \<Rightarrow> bag" where
  "extract_row_values item =
     (if attr_values item \<noteq> [] then attr_values item
      else if attr_value item \<noteq> [] then attr_value item
      else if attr_columns item \<noteq> [] then attr_columns item
      else attr_rest item)"

text \<open>
  \<open>str.strip()\<close> removes the white space characters of Python at both ends: U+0009 to
  U+000D, U+001C to U+0020, U+0085, U+00A0, U+1680, U+2000 to U+200A, U+2028, U+2029,
  U+202F, U+205F and U+3000. A string being the bytes of its UTF-8 form, each of them is
  the list of the bytes that encode it, and stripping removes such lists at the front,
  then at the back.
\<close>

definition white_space :: "string list" where
  "white_space =
    [[CHR 0x09], [CHR 0x0A], [CHR 0x0B], [CHR 0x0C], [CHR 0x0D], [CHR 0x1C], [CHR 0x1D],
     [CHR 0x1E], [CHR 0x1F], [CHR 0x20], [CHR 0xC2, CHR 0x85], [CHR 0xC2, CHR 0xA0],
     [CHR 0xE1, CHR 0x9A, CHR 0x80], [CHR 0xE2, CHR 0x80, CHR 0x80],
     [CHR 0xE2, CHR 0x80, CHR 0x81], [CHR 0xE2, CHR 0x80, CHR 0x82],
     [CHR 0xE2, CHR 0x80, CHR 0x83], [CHR 0xE2, CHR 0x80, CHR 0x84],
     [CHR 0xE2, CHR 0x80, CHR 0x85], [CHR 0xE2, CHR 0x80, CHR 0x86],
     [CHR 0xE2, CHR 0x80, CHR 0x87], [CHR 0xE2, CHR 0x80, CHR 0x88],
     [CHR 0xE2, CHR 0x80, CHR 0x89], [CHR 0xE2, CHR 0x80, CHR 0x8A],
     [CHR 0xE2, CHR 0x80, CHR 0xA8], [CHR 0xE2, CHR 0x80, CHR 0xA9],
     [CHR 0xE2, CHR 0x80, CHR 0xAF], [CHR 0xE2, CHR 0x81, CHR 0x9F],
     [CHR 0xE3, CHR 0x80, CHR 0x80]]"

fun lstrip_with :: "string list \<Rightarrow> string \<Rightarrow> string" where
  "lstrip_with ws [] = []"
| "lstrip_with ws (c # cs) =
     (case find (\<lambda>w. w \<noteq> [] \<and> take (length w) (c # cs) = w) ws of
        None \<Rightarrow> c # cs
      | Some w \<Rightarrow> lstrip_with ws (drop (length w - 1) cs))"

definition strip :: "string \<Rightarrow> string" where
  "strip s = rev (lstrip_with (map rev white_space) (rev (lstrip_with white_space s)))"

definition startswith :: "string \<Rightarrow> string \<Rightarrow> bool" where
  "startswith s p = (take (length p) s = p)"

subsection \<open>Events\<close>

text \<open>
  The body of the loop over the events of one page: the nested service, when it is truthy,
  is added and the tags are not read (\<open>continue\<close>); otherwise every tag that starts with
  \<open>service:\<close> adds what follows the prefix (\<open>tag.split("service:", 1)[1]\<close>, the split
  being at position 0).
\<close>

definition extract_tags :: "string list \<Rightarrow> string set \<Rightarrow> string set" where
  "extract_tags tags services =
     fold (\<lambda>tag acc. if startswith tag ''service:'' then insert (drop (length ''service:'') tag) acc else acc)
       tags services"

definition extract_event :: "event \<Rightarrow> string set \<Rightarrow> string set" where
  "extract_event ev services =
     (case ev_service ev of
        Some svc \<Rightarrow> if svc \<noteq> [] then insert svc services else extract_tags (ev_tags ev) services
      | None \<Rightarrow> extract_tags (ev_tags ev) services)"

text \<open>
  \<open>(data.get("meta", {}) or {}).get("page", {}).get("after")\<close>: a null \<open>page\<close> is not
  replaced by \<open>{}\<close>, so \<open>.get\<close> on it raises.
\<close>

fun next_cursor :: "meta_field \<Rightarrow> error + string option" where
  "next_cursor MetaMissing = Inr None"
| "next_cursor (MetaObj PageMissing) = Inr None"
| "next_cursor (MetaObj PageNull) = Inl AttributeError"
| "next_cursor (MetaObj (PageObj a)) = Inr a"

text \<open>
  The \<open>while True\<close> loop of \<open>list_services_from_events\<close>. It has no bound of its own, so
  the model is a partial function: \<open>None\<close> is a loop that never ends. A result is the
  error raised or the set of services, with the requests issued.
\<close>

partial_function (option) events_loop ::
  "'w env \<Rightarrow> int option \<Rightarrow> int \<Rightarrow> string option \<Rightarrow> string set \<Rightarrow> 'w io
     \<Rightarrow> ((error + string set) \<times> 'w io) option" where
  "events_loop e max_pages page0 cursor services s =
     (let page = page0 + 1 in
      if (case max_pages of None \<Rightarrow> False | Some mp \<Rightarrow> page > mp) then Some (Inr services, s)
      else
        let (resp, s1) = post_events e cursor s in
        if er_status resp = 401 then Some (Inl Unauthorized, s1)
        else if 400 \<le> er_status resp \<and> er_status resp < 600 then Some (Inl (HTTPError (er_status resp)), s1)
        else
          let services1 = fold extract_event (er_events resp) services in
          case next_cursor (er_meta resp) of
            Inl err \<Rightarrow> Some (Inl err, s1)
          | Inr None \<Rightarrow> Some (Inr services1, s1)
          | Inr (Some c) \<Rightarrow>
              if c = [] then Some (Inr services1, s1)
              else events_loop e max_pages page (Some c) services1 s1)"

declare events_loop.simps [code]

definition list_services_from_events ::
  "'w env \<Rightarrow> int option \<Rightarrow> 'w io \<Rightarrow> ((error + string set) \<times> 'w io) option" where
  "list_services_from_events e max_pages s = events_loop e max_pages 0 None {} s"

subsection \<open>Reference table\<close>

definition chunk_size :: nat where
  "chunk_size = 100"

text \<open>\<open>range(0, n, step)\<close> for a positive step.\<close>

definition chunk_starts :: "nat \<Rightarrow> nat \<Rightarrow> nat list" where
  "chunk_starts n step = map (\<lambda>k. k * step) [0..<(n + step - 1) div step]"

text \<open>
  The body of the loop over the items of one rows response: the service and team columns
  of the item's values, stripped; a non-empty service is stored with its team, replacing
  what the mapping had for it.
\<close>

definition record_row :: "string \<Rightarrow> string \<Rightarrow> row_item \<Rightarrow> (string \<rightharpoonup> string) \<Rightarrow> (string \<rightharpoonup> string)" where
  "record_row service_col team_col item mapping =
     (let values = extract_row_values item;
          service = strip (bag_get values service_col);
          team = strip (bag_get values team_col)
      in if service \<noteq> [] then mapping(service \<mapsto> team) else mapping)"

text \<open>
  The loop \<open>for start in range(0, len(row_list), chunk_size)\<close>: one GET per chunk
  \<open>row_list[start : start + chunk_size]\<close>. 401 raises; 404 goes on to the next chunk
  when the body carries \<open>meta.not_found\<close> and raises otherwise; any other status from
  400 raises; the rows of every other response are recorded.
\<close>

fun rows_loop ::
  "'w env \<Rightarrow> string \<Rightarrow> string \<Rightarrow> string list \<Rightarrow> nat list \<Rightarrow> (string \<rightharpoonup> string) \<Rightarrow> 'w io
     \<Rightarrow> (error + (string \<rightharpoonup> string)) \<times> 'w io" where
  "rows_loop e service_col team_col row_list [] mapping s = (Inr mapping, s)"
| "rows_loop e service_col team_col row_list (start # starts) mapping s =
     (let chunk = take chunk_size (drop start row_list);
          rs = get_rows e chunk s;
          resp = fst rs;
          s1 = snd rs
      in if rr_status resp = 401 then (Inl Unauthorized, s1)
         else if rr_status resp = 404 then
           (if rr_not_found resp then rows_loop e service_col team_col row_list starts mapping s1
            else (Inl RowsEndpointNotFound, s1))
         else if rr_status resp \<ge> 400 then (Inl (RowsRequestFailed (rr_status resp) (rr_text resp)), s1)
         else rows_loop e service_col team_col row_list starts
                (fold (record_row service_col team_col) (rr_data resp) mapping) s1)"

definition get_reference_table_rows_by_id ::
  "'w env \<Rightarrow> string list \<Rightarrow> string \<Rightarrow> string \<Rightarrow> 'w io \<Rightarrow> (error + (string \<rightharpoonup> string)) \<times> 'w io" where
  "get_reference_table_rows_by_id e row_ids service_col team_col s =
     (let row_list = filter (\<lambda>r. r \<noteq> []) row_ids
      in if row_list = [] then (Inr Map.empty, s)
         else rows_loop e service_col team_col row_list
                (chunk_starts (length row_list) chunk_size) Map.empty s)"



text \<open>
  \<open>create_reference_table_rows\<close>: one POST per item of \<open>rows\<close>. A failure line
  \<open>f"{service}: {resp.status_code} {resp.text}"\<close> is kept as its three parts.
\<close>

type_synonym failure = "string \<times> int \<times> string"

fun create_rows_loop ::
  "'w env \<Rightarrow> (string \<times> string) list \<Rightarrow> nat \<Rightarrow> failure list \<Rightarrow> 'w io \<Rightarrow> (nat \<times> failure list) \<times> 'w io" where
  "create_rows_loop e [] created fails s = ((created, fails), s)"
| "create_rows_loop e ((service, team) # rows) created fails s =
     (let rs = post_row e service team s;
          status = fst (fst rs);
          txt = snd (fst rs);
          s1 = snd rs
      in if status = 200 \<or> status = 201 then create_rows_loop e rows (created + 1) fails s1
         else if status = 409 then create_rows_loop e rows created fails s1
         else create_rows_loop e rows created (fails @ [(service, status, txt)]) s1)"

definition create_reference_table_rows ::
  "'w env \<Rightarrow> (string \<times> string) list \<Rightarrow> 'w io \<Rightarrow> (nat \<times> failure list) \<times> 'w io" where
  "create_reference_table_rows e rows s = create_rows_loop e rows 0 [] s"

subsection \<open>Service catalog\<close>

datatype upsert_msg = CreatedOrUpdated | StatusText int string

definition upsert_service_definition ::
  "'w env \<Rightarrow> string \<Rightarrow> string \<Rightarrow> 'w io \<Rightarrow> (bool \<times> upsert_msg) \<times> 'w io" where
  "upsert_service_definition e service team s =
     (let rs = post_definition e service team s;
          status = fst (fst rs);
          txt = snd (fst rs)
      in if status = 200 \<or> status = 201 then ((True, CreatedOrUpdated), snd rs)
         else ((False, StatusText status txt), snd rs))"

subsection \<open>main\<close>

record counters =
  updated :: nat
  skipped :: nat
  failures :: nat
  missing_team :: "string list"
  failed_lines :: "(string \<times> upsert_msg) list"

record summary = counters +
  found :: nat
  rows_created :: nat
  insert_failures :: "failure list"

datatype outcome = NoServices | Summary summary

definition team_of :: "(string \<rightharpoonup> string) \<Rightarrow> string \<Rightarrow> string" where
  "team_of mapping service = strip (case mapping service of None \<Rightarrow> [] | Some t \<Rightarrow> t)"

text \<open>
  The loop \<open>for service in sorted(services)\<close>, over the services still to do.
  \<open>failed_lines\<close> are the \<open>FAILED\<close> lines printed.
\<close>

fun upsert_loop ::
  "'w env \<Rightarrow> bool \<Rightarrow> (string \<rightharpoonup> string) \<Rightarrow> string list \<Rightarrow> counters \<Rightarrow> 'w io \<Rightarrow> counters \<times> 'w io" where
  "upsert_loop e dry_run mapping [] c s = (c, s)"
| "upsert_loop e dry_run mapping (service # rest) c s =
     (let team = team_of mapping service
      in if team = [] then
           upsert_loop e dry_run mapping rest
             (c\<lparr>skipped := skipped c + 1, missing_team := missing_team c @ [service]\<rparr>) s
         else if dry_run then
           upsert_loop e dry_run mapping rest (c\<lparr>updated := updated c + 1\<rparr>) s
         else
           let rs = upsert_service_definition e service team s;
               ok = fst (fst rs);
               msg = snd (fst rs);
               s1 = snd rs
           in if ok then upsert_loop e dry_run mapping rest (c\<lparr>updated := updated c + 1\<rparr>) s1
              else upsert_loop e dry_run mapping rest
                     (c\<lparr>failures := failures c + 1, failed_lines := failed_lines c @ [(service, msg)]\<rparr>) s1)"

definition counters0 :: counters where
  "counters0 = \<lparr>updated = 0, skipped = 0, failures = 0, missing_team = [], failed_lines = []\<rparr>"

text \<open>
  \<open>main\<close> from the result of \<open>list_services_from_events\<close> on, with the table already
  found: \<open>services\<close> is the set of discovered services as the list Python iterates it
  in (an order the language leaves open, without repetition). The three steps after the
  resolver are definitions of their own so that each can be named.
\<close>

definition missing_services :: "(string \<rightharpoonup> string) \<Rightarrow> string list \<Rightarrow> string list" where
  "missing_services mapping services = filter (\<lambda>s. mapping s = None) services"

definition fill_gaps ::
  "'w env \<Rightarrow> bool \<Rightarrow> (string \<rightharpoonup> string) \<Rightarrow> string list \<Rightarrow> 'w io
     \<Rightarrow> (nat \<times> failure list \<times> (string \<rightharpoonup> string)) \<times> 'w io" where
  "fill_gaps e dry_run mapping services s =
     (let dummy_rows = assign_dummy_teams (missing_services mapping services)
      in if dummy_rows \<noteq> [] then
           (if dry_run then ((0, [], mapping ++ map_of dummy_rows), s)
            else
              let rs = create_reference_table_rows e dummy_rows s
              in ((fst (fst rs), snd (fst rs), mapping ++ map_of dummy_rows), snd rs))
         else ((0, [], mapping), s))"

definition main ::
  "'w env \<Rightarrow> bool \<Rightarrow> string \<Rightarrow> string \<Rightarrow> string list \<Rightarrow> 'w io \<Rightarrow> (error + outcome) \<times> 'w io" where
  "main e dry_run service_col team_col services s =
     (if services = [] then (Inr NoServices, s)
      else
        case get_reference_table_rows_by_id e services service_col team_col s of
          (Inl err, s1) \<Rightarrow> (Inl err, s1)
        | (Inr mapping, s1) \<Rightarrow>
            let fg = fill_gaps e dry_run mapping services s1;
                created = fst (fst fg);
                fails = fst (snd (fst fg));
                mapping1 = snd (snd (fst fg));
                ul = upsert_loop e dry_run mapping1 (sort services) counters0 (snd fg);
                c = fst ul
            in (Inr (Summary (counters.extend c
                  \<lparr>found = length services, rows_created = created, insert_failures = fails\<rparr>)),
                snd ul))"

subsection \<open>Reading the list of requests\<close>

text \<open>The service a write request is for, and the status a diagnostic carries.\<close>

definition call_service :: "call \<Rightarrow> string" where
  "call_service c = (case c of RowsPost sv t \<Rightarrow> sv | DefinitionsPost sv t \<Rightarrow> sv | _ \<Rightarrow> [])"

definition msg_status :: "upsert_msg \<Rightarrow> int" where
  "msg_status m = (case m of CreatedOrUpdated \<Rightarrow> 200 | StatusText st txt \<Rightarrow> st)"

subsection \<open>Example worlds\<close>

text \<open>
  Remote sides without state, and the requests and rows that the examples below run on.
\<close>

definition stateless ::
  "(string option \<Rightarrow> events_response) \<Rightarrow> (string list \<Rightarrow> rows_response)
     \<Rightarrow> (string \<Rightarrow> string \<Rightarrow> int \<times> string) \<Rightarrow> (string \<Rightarrow> string \<Rightarrow> int \<times> string) \<Rightarrow> unit env" where
  "stateless ev rg rp dp =
     \<lparr>events_search = (\<lambda>w c. (ev c, w)), rows_get = (\<lambda>w ch. (rg ch, w)),
      rows_post = (\<lambda>w s t. (rp s t, w)), definitions_post = (\<lambda>w s t. (dp s t, w))\<rparr>"

definition io0 :: "unit io" where
  "io0 = \<lparr>world = (), calls = []\<rparr>"

definition row_of :: "string \<Rightarrow> string \<Rightarrow> row_item" where
  "row_of service team =
     \<lparr>attr_values = [(''service'', service), (''team'', team)], attr_value = [], attr_columns = [], attr_rest = []\<rparr>"

definition ok_rows :: "row_item list \<Rightarrow> rows_response" where
  "ok_rows items = \<lparr>rr_status = 200, rr_text = [], rr_not_found = False, rr_data = items\<rparr>"

definition no_events :: "string option \<Rightarrow> events_response" where
  "no_events c = \<lparr>er_status = 200, er_events = [], er_meta = MetaMissing\<rparr>"



definition rows_env :: "(string list \<Rightarrow> rows_response) \<Rightarrow> unit env" where
  "rows_env rg = stateless no_events rg (\<lambda>s t. (201, [])) (\<lambda>s t. (200, []))"

definition not_found_marked :: rows_response where
  "not_found_marked = \<lparr>rr_status = 404, rr_text = ''{\"meta\": {\"not_found\": [\"a\"]}}'', rr_not_found = True, rr_data = []\<rparr>"

definition server_error_marked :: rows_response where
  "server_error_marked = \<lparr>rr_status = 500, rr_text = ''error'', rr_not_found = True, rr_data = []\<rparr>"

definition not_found_bare :: rows_response where
  "not_found_bare = \<lparr>rr_status = 404, rr_text = ''{}'', rr_not_found = False, rr_data = []\<rparr>"

definition table_env :: "string list env" where
  "table_env =
     \<lparr>events_search = (\<lambda>w c. (no_events c, w)),
      rows_get = (\<lambda>w ch. (ok_rows (map (\<lambda>r. row_of r ''team 9'') (filter (\<lambda>r. r \<in> set w) ch)), w)),
      rows_post = (\<lambda>w sv t. if sv \<in> set w then ((409, ''conflict''), w) else ((201, []), w @ [sv])),
      definitions_post = (\<lambda>w sv t. ((200, []), w))\<rparr>"

definition two_rows :: "(string \<times> string) list" where
  "two_rows = [(''b'', ''team 1''), (''c'', ''team 2'')]"

definition env_x500 :: "unit env" where
  "env_x500 = stateless no_events (\<lambda>ch. ok_rows (map (\<lambda>r. row_of r ''team 7'') ch)) (\<lambda>sv t. (201, []))
     (\<lambda>sv t. if sv = ''x'' then (500, ''boom'') else (200, []))"

definition map_axy :: "string \<rightharpoonup> string" where
  "map_axy = [''a'' \<mapsto> ''team 1'', ''x'' \<mapsto> ''team 2'', ''y'' \<mapsto> ''team 1'']"

definition env_gap :: "unit env" where
  "env_gap = stateless no_events
     (\<lambda>ch. ok_rows (concat (map (\<lambda>r. if r = ''a'' then [row_of ''a'' ''team 5'']
                                       else if r = ''e'' then [row_of ''e'' ''  '']
                                       else []) ch)))
     (\<lambda>sv t. (201, []))
     (\<lambda>sv t. if sv = ''b'' then (500, ''boom'') else (200, []))"

definition env_forever :: "unit env" where
  "env_forever = stateless (\<lambda>c. \<lparr>er_status = 200, er_events = [], er_meta = MetaObj (PageObj (Some ''next''))\<rparr>)
     (\<lambda>ch. ok_rows []) (\<lambda>sv t. (201, [])) (\<lambda>sv t. (200, []))"

definition env_two_pages :: "unit env" where
  "env_two_pages = stateless
     (\<lambda>c. if c = None
           then \<lparr>er_status = 200, er_events = [\<lparr>ev_service = Some ''web'', ev_tags = [''service:api'']\<rparr>],
                  er_meta = MetaObj (PageObj (Some ''p2''))\<rparr>
           else \<lparr>er_status = 200, er_events = [\<lparr>ev_service = None, ev_tags = [''service:db'', ''env:prod'']\<rparr>],
                  er_meta = MetaObj PageMissing\<rparr>)
     (\<lambda>ch. ok_rows []) (\<lambda>sv t. (201, [])) (\<lambda>sv t. (200, []))"




subsection \<open>Reading one page\<close>

text \<open>
  What one response means for the loop of \<open>list_services_from_events\<close>, read off its
  body: \<open>Inl r\<close>, the loop ends there with \<open>r\<close>; \<open>Inr c\<close>, it goes on with the
  cursor \<open>c\<close>. And a source that answers every request with a success status and a
  non-empty next cursor.
\<close>

definition page_outcome :: "events_response \<Rightarrow> string set \<Rightarrow> (error + string set) + string" where
  "page_outcome resp services =
     (if er_status resp = 401 then Inl (Inl Unauthorized)
      else if 400 \<le> er_status resp \<and> er_status resp < 600 then Inl (Inl (HTTPError (er_status resp)))
      else case next_cursor (er_meta resp) of
             Inl err \<Rightarrow> Inl (Inl err)
           | Inr None \<Rightarrow> Inl (Inr (fold extract_event (er_events resp) services))
           | Inr (Some c) \<Rightarrow>
               if c = [] then Inl (Inr (fold extract_event (er_events resp) services)) else Inr c)"

definition always_cursor :: "'w env \<Rightarrow> bool" where
  "always_cursor e \<longleftrightarrow>
     (\<forall>w c. er_status (fst (events_search e w c)) \<noteq> 401
        \<and> \<not> (400 \<le> er_status (fst (events_search e w c)) \<and> er_status (fst (events_search e w c)) < 600)
        \<and> (\<exists>c'. c' \<noteq> [] \<and> er_meta (fst (events_search e w c)) = MetaObj (PageObj (Some c'))))"

subsection \<open>The rows a run reads\<close>



subsection \<open>More example worlds\<close>




section \<open>Properties\<close>

subsection \<open>Extraction\<close>

lemma extract_tags_eq:
  "extract_tags tags services =
     services \<union> {drop (length ''service:'') tag | tag. tag \<in> set tags \<and> startswith tag ''service:''}"
  unfolding extract_tags_def
  by (induction tags arbitrary: services) auto

text \<open>
  C1. First match wins per event. An event whose nested service field is a non-empty
  string yields exactly that value, whatever its tags are (they are not read). An event
  without such a field (absent, null or empty) yields the suffix of every tag that starts
  with \<open>service:\<close>, and nothing else.
\<close>

theorem extraction_precedence:
  "(ev_service ev = Some svc \<and> svc \<noteq> [] \<longrightarrow>
      extract_event ev {} = {svc} \<and>
      extract_event (ev\<lparr>ev_tags := tags'\<rparr>) services = insert svc services)
   \<and> (ev_service ev = None \<or> ev_service ev = Some [] \<longrightarrow>
      extract_event ev services =
        services \<union> {drop (length ''service:'') tag | tag. tag \<in> set (ev_tags ev) \<and> startswith tag ''service:''})"
  by (auto simp: extract_event_def extract_tags_eq)

theorem extraction_precedence_witness:
  "extract_event \<lparr>ev_service = Some ''web'', ev_tags = [''service:api'', ''env:prod'']\<rparr> {} = {''web''}
   \<and> extract_event \<lparr>ev_service = None, ev_tags = [''service:api'', ''env:prod'', ''service:db'']\<rparr> {}
       = {} \<union> {drop (length ''service:'') tag | tag.
                 tag \<in> set [''service:api'', ''env:prod'', ''service:db''] \<and> startswith tag ''service:''}
   \<and> extract_event \<lparr>ev_service = None, ev_tags = [''service:api'', ''env:prod'', ''service:db'']\<rparr> {}
       = {''db'', ''api''}"
proof -
  have a: "extract_event \<lparr>ev_service = Some ''web'', ev_tags = [''service:api'', ''env:prod'']\<rparr> {} = {''web''}"
    using extraction_precedence [of "\<lparr>ev_service = Some ''web'', ev_tags = [''service:api'', ''env:prod'']\<rparr>" "''web''" "[]" "{}"]
    by simp
  have b: "extract_event \<lparr>ev_service = None, ev_tags = [''service:api'', ''env:prod'', ''service:db'']\<rparr> {}
       = {} \<union> {drop (length ''service:'') tag | tag.
                 tag \<in> set [''service:api'', ''env:prod'', ''service:db''] \<and> startswith tag ''service:''}"
    using extraction_precedence [of "\<lparr>ev_service = None, ev_tags = [''service:api'', ''env:prod'', ''service:db'']\<rparr>" "[]" "[]" "{}"]
    by simp
  have c: "extract_event \<lparr>ev_service = None, ev_tags = [''service:api'', ''env:prod'', ''service:db'']\<rparr> {}
       = {''db'', ''api''}"
    by (simp add: extract_event_def extract_tags_def startswith_def)
  from a b c show ?thesis by blast
qed

subsection \<open>Gap filler\<close>

lemma enumerate_map_nth:
  "map (\<lambda>(idx, x). f idx x) (enumerate 0 zs) = map (\<lambda>i. f i (zs ! i)) [0..<length zs]"
  by (rule nth_equalityI) (simp_all add: nth_enumerate_eq)

lemma sorted_services:
  "sort (remdups (filter (\<lambda>s. s \<noteq> []) xs)) = sorted_list_of_set {s \<in> set xs. s \<noteq> []}"
proof -
  have "{s \<in> set xs. s \<noteq> []} = set (filter (\<lambda>s. s \<noteq> []) xs)" by auto
  then show ?thesis by (simp only: sorted_list_of_set_sort_remdups)
qed

lemma assign_dummy_teams_sorted:
  "assign_dummy_teams zs =
     (let S = sorted_list_of_set {s \<in> set zs. s \<noteq> []}
      in map (\<lambda>i. (S ! i, [''team 1'', ''team 2''] ! (i mod 2))) [0..<length S])"
  unfolding assign_dummy_teams_def sorted_services enumerate_map_nth
  by (simp add: teams_def Let_def numeral_2_eq_2)

text \<open>
  C2. The gap filler is a function of the set of its input: the identifiers, without
  repetition (and without the empty string), in sorted order, the one at position \<open>i\<close>
  given team \<open>i mod 2\<close> of the rotation \<open>["team 1", "team 2"]\<close>; so two inputs with the
  same elements get the same assignment, whatever their order.
\<close>

theorem gap_filler_deterministic:
  "assign_dummy_teams xs =
     (let S = sorted_list_of_set {s \<in> set xs. s \<noteq> []}
      in map (\<lambda>i. (S ! i, [''team 1'', ''team 2''] ! (i mod 2))) [0..<length S])
   \<and> (set xs = set ys \<longrightarrow> assign_dummy_teams xs = assign_dummy_teams ys)"
  by (simp only: assign_dummy_teams_sorted) simp

theorem gap_filler_deterministic_witness:
  "set [''c'', ''b'', ''c''] = set [''b'', ''c'']
   \<and> assign_dummy_teams [''c'', ''b'', ''c''] = assign_dummy_teams [''b'', ''c'']
   \<and> assign_dummy_teams [''c'', ''b'', ''c''] = [(''b'', ''team 1''), (''c'', ''team 2'')]"
proof -
  have h: "set [''c'', ''b'', ''c''] = set [''b'', ''c'']" by auto
  have v: "assign_dummy_teams [''b'', ''c''] = [(''b'', ''team 1''), (''c'', ''team 2'')]"
    by code_simp
  from gap_filler_deterministic [of "[''c'', ''b'', ''c'']" "[''b'', ''c'']"] h
  have "assign_dummy_teams [''c'', ''b'', ''c''] = assign_dummy_teams [''b'', ''c'']" by blast
  with h v show ?thesis by simp
qed

subsection \<open>Resolver: chunking\<close>

lemma get_rows_calls:
  "calls (snd (get_rows e chunk s)) = calls s @ [(RowsGet chunk, rr_status (fst (get_rows e chunk s)))]"
  by (simp add: get_rows_def split: prod.split)

lemma get_rows_fst:
  "fst (get_rows e chunk s) = fst (rows_get e (world s) chunk)"
  by (simp add: get_rows_def split: prod.split)

















subsection \<open>Resolver: not found\<close>

lemma chunk_starts_small:
  assumes "0 < n" "n \<le> 100"
  shows "chunk_starts n chunk_size = [0]"
proof -
  from assms obtain m where "n = Suc m" "m < 100" by (cases n) auto
  then have "(n + 100 - 1) div 100 = 1" by simp
  then show ?thesis by (simp add: chunk_starts_def chunk_size_def)
qed


lemma rows_loop_all_not_found:
  assumes "\<forall>w ch. rr_status (fst (rows_get e w ch)) = 404 \<and> rr_not_found (fst (rows_get e w ch))"
  shows "fst (rows_loop e sc tc rl starts m s) = Inr m"
  using assms by (induction starts arbitrary: s) (simp_all add: Let_def get_rows_fst)

text \<open>
  C4 (as amended). The not-found signal for a chunk is status 404 together with a
  not-found marker in the body's metadata. A chunk answered so is not an error: the loop
  goes on with the next chunk and the mapping it carries is unchanged; when every chunk is
  answered so the resolver returns the empty mapping. Any other status from 400 up (401,
  a 404 without the marker, 500 with or without it) ends the resolver with an error after
  that request, and \<open>main\<close> ends with the same error.
\<close>

theorem not_found_chunk_skipped:
  assumes "chunk = take chunk_size (drop start rl)"
    and "resp = fst (get_rows e chunk s)"
    and "s1 = snd (get_rows e chunk s)"
  shows "(rr_status resp = 404 \<and> rr_not_found resp \<longrightarrow>
            rows_loop e sc tc rl (start # starts) m s = rows_loop e sc tc rl starts m s1)
     \<and> (rr_status resp \<ge> 400 \<and> \<not> (rr_status resp = 404 \<and> rr_not_found resp) \<longrightarrow>
            (\<exists>err. rows_loop e sc tc rl (start # starts) m s = (Inl err, s1))
            \<and> calls s1 = calls s @ [(RowsGet chunk, rr_status resp)])
     \<and> ((\<forall>w ch. rr_status (fst (rows_get e w ch)) = 404 \<and> rr_not_found (fst (rows_get e w ch))) \<longrightarrow>
            fst (get_reference_table_rows_by_id e row_ids sc tc s) = Inr Map.empty)
     \<and> (services \<noteq> [] \<and> fst (get_reference_table_rows_by_id e services sc tc s) = Inl err' \<longrightarrow>
            main e dry_run sc tc services s = (Inl err', snd (get_reference_table_rows_by_id e services sc tc s)))"
proof -
  have a: "rr_status resp = 404 \<and> rr_not_found resp \<longrightarrow>
            rows_loop e sc tc rl (start # starts) m s = rows_loop e sc tc rl starts m s1"
    by (simp add: assms Let_def)
  have b: "rr_status resp \<ge> 400 \<and> \<not> (rr_status resp = 404 \<and> rr_not_found resp) \<longrightarrow>
            (\<exists>err. rows_loop e sc tc rl (start # starts) m s = (Inl err, s1))
            \<and> calls s1 = calls s @ [(RowsGet chunk, rr_status resp)]"
    by (auto simp: assms Let_def get_rows_calls)
  have c: "(\<forall>w ch. rr_status (fst (rows_get e w ch)) = 404 \<and> rr_not_found (fst (rows_get e w ch))) \<longrightarrow>
            fst (get_reference_table_rows_by_id e row_ids sc tc s) = Inr Map.empty"
    by (simp add: get_reference_table_rows_by_id_def Let_def rows_loop_all_not_found)
  have d: "services \<noteq> [] \<and> fst (get_reference_table_rows_by_id e services sc tc s) = Inl err' \<longrightarrow>
            main e dry_run sc tc services s = (Inl err', snd (get_reference_table_rows_by_id e services sc tc s))"
    by (auto simp: main_def split: prod.splits sum.splits)
  from a b c d show ?thesis by blast
qed

theorem not_found_chunk_skipped_witness:
  "rr_status (fst (get_rows (rows_env (\<lambda>ch. not_found_marked)) (take chunk_size (drop 0 [''a'', ''b''])) io0)) = 404
   \<and> rr_not_found (fst (get_rows (rows_env (\<lambda>ch. not_found_marked)) (take chunk_size (drop 0 [''a'', ''b''])) io0))
   \<and> fst (rows_loop (rows_env (\<lambda>ch. not_found_marked)) ''service'' ''team'' [''a'', ''b''] [0] [''z'' \<mapsto> ''team 3''] io0)
       = Inr [''z'' \<mapsto> ''team 3'']
   \<and> fst (get_reference_table_rows_by_id (rows_env (\<lambda>ch. not_found_marked)) [''a'', ''b''] ''service'' ''team'' io0)
       = Inr Map.empty
   \<and> rr_status (fst (get_rows (rows_env (\<lambda>ch. not_found_bare)) (take chunk_size (drop 0 [''a'', ''b''])) io0)) \<ge> 400
   \<and> \<not> rr_not_found (fst (get_rows (rows_env (\<lambda>ch. not_found_bare)) (take chunk_size (drop 0 [''a'', ''b''])) io0))
   \<and> (\<exists>err. fst (rows_loop (rows_env (\<lambda>ch. not_found_bare)) ''service'' ''team'' [''a'', ''b''] [0, 100] Map.empty io0)
       = Inl err)
   \<and> fst (main (rows_env (\<lambda>ch. not_found_bare)) False ''service'' ''team'' [''a'', ''b''] io0) = Inl RowsEndpointNotFound"
proof -
  let ?e = "rows_env (\<lambda>ch. not_found_marked)"
  let ?f = "rows_env (\<lambda>ch. not_found_bare)"
  let ?chunk = "take chunk_size (drop 0 [''a'', ''b''])"
  have h1: "rr_status (fst (get_rows ?e ?chunk io0)) = 404 \<and> rr_not_found (fst (get_rows ?e ?chunk io0))"
    by (simp add: get_rows_def rows_env_def stateless_def not_found_marked_def io0_def)
  have h2: "\<forall>w ch. rr_status (fst (rows_get ?e w ch)) = 404 \<and> rr_not_found (fst (rows_get ?e w ch))"
    by (simp add: rows_env_def stateless_def not_found_marked_def)
  have h3: "rr_status (fst (get_rows ?f ?chunk io0)) \<ge> 400
      \<and> \<not> (rr_status (fst (get_rows ?f ?chunk io0)) = 404 \<and> rr_not_found (fst (get_rows ?f ?chunk io0)))"
    by (simp add: get_rows_def rows_env_def stateless_def not_found_bare_def io0_def)
  have h4: "fst (get_reference_table_rows_by_id ?f [''a'', ''b''] ''service'' ''team'' io0) = Inl RowsEndpointNotFound"
    by (simp add: get_reference_table_rows_by_id_def chunk_starts_small get_rows_def rows_env_def
        stateless_def not_found_bare_def io0_def)
  note t1 = not_found_chunk_skipped [of ?chunk 0 "[''a'', ''b'']" _ ?e io0 _ "''service''" "''team''" "[]"
      "[''z'' \<mapsto> ''team 3'']" "[''a'', ''b'']" "[''a'', ''b'']" RowsEndpointNotFound False, OF refl refl refl]
  note t2 = not_found_chunk_skipped [of ?chunk 0 "[''a'', ''b'']" _ ?f io0 _ "''service''" "''team''" "[100]"
      Map.empty "[''a'', ''b'']" "[''a'', ''b'']" RowsEndpointNotFound False, OF refl refl refl]
  from t1 h1 have a: "rows_loop ?e ''service'' ''team'' [''a'', ''b''] [0] [''z'' \<mapsto> ''team 3''] io0
      = rows_loop ?e ''service'' ''team'' [''a'', ''b''] [] [''z'' \<mapsto> ''team 3''] (snd (get_rows ?e ?chunk io0))"
    by blast
  from t1 h2 have b: "fst (get_reference_table_rows_by_id ?e [''a'', ''b''] ''service'' ''team'' io0) = Inr Map.empty"
    by blast
  from t2 h3 have c: "\<exists>err. rows_loop ?f ''service'' ''team'' [''a'', ''b''] [0, 100] Map.empty io0
      = (Inl err, snd (get_rows ?f ?chunk io0))"
    by blast
  from t2 h4 have d: "main ?f False ''service'' ''team'' [''a'', ''b''] io0
      = (Inl RowsEndpointNotFound, snd (get_reference_table_rows_by_id ?f [''a'', ''b''] ''service'' ''team'' io0))"
    by blast
  from c have c': "\<exists>err. fst (rows_loop ?f ''service'' ''team'' [''a'', ''b''] [0, 100] Map.empty io0) = Inl err"
    by auto
  from a have a': "fst (rows_loop ?e ''service'' ''team'' [''a'', ''b''] [0] [''z'' \<mapsto> ''team 3''] io0)
      = Inr [''z'' \<mapsto> ''team 3'']"
    by simp
  from d have d': "fst (main ?f False ''service'' ''team'' [''a'', ''b''] io0) = Inl RowsEndpointNotFound"
    by simp
  from h3 h1 have h3': "\<not> rr_not_found (fst (get_rows ?f ?chunk io0))"
    by (simp add: get_rows_def rows_env_def stateless_def not_found_bare_def io0_def)
  from h1 h3 h3' a' b c' d' show ?thesis by blast
qed

text \<open>
  C4 as stated fails: neither form of the signal is enough alone. A 404 without the
  marker is fatal, and so is a marker under status 500.
\<close>

theorem not_found_signal_counterexample:
  "fst (get_reference_table_rows_by_id (rows_env (\<lambda>ch. not_found_bare)) [''a''] ''service'' ''team'' io0)
     = Inl RowsEndpointNotFound
   \<and> fst (get_reference_table_rows_by_id (rows_env (\<lambda>ch. server_error_marked)) [''a''] ''service'' ''team'' io0)
     = Inl (RowsRequestFailed 500 ''error'')"
  by (simp add: get_reference_table_rows_by_id_def chunk_starts_small get_rows_def rows_env_def
      stateless_def not_found_bare_def server_error_marked_def io0_def)

subsection \<open>Row creation\<close>

lemma post_row_calls:
  "calls (snd (post_row e sv t s)) = calls s @ [(RowsPost sv t, fst (fst (post_row e sv t s)))]"
  by (simp add: post_row_def split: prod.split)

lemma post_row_fst: "fst (post_row e sv t s) = fst (rows_post e (world s) sv t)"
  by (simp add: post_row_def split: prod.split)

lemma post_row_world: "world (snd (post_row e sv t s)) = snd (rows_post e (world s) sv t)"
  by (simp add: post_row_def split: prod.split)

lemma create_rows_loop_trace:
  "\<exists>tr. calls (snd (create_rows_loop e rows created fails s)) = calls s @ tr
     \<and> map fst tr = map (\<lambda>(sv, t). RowsPost sv t) rows
     \<and> fst (fst (create_rows_loop e rows created fails s))
         = created + length (filter (\<lambda>(c, st). st = 200 \<or> st = 201) tr)
     \<and> map (\<lambda>(sv, st, tx). (sv, st)) (snd (fst (create_rows_loop e rows created fails s)))
         = map (\<lambda>(sv, st, tx). (sv, st)) fails
           @ map (\<lambda>(c, st). (call_service c, st)) (filter (\<lambda>(c, st). st \<noteq> 200 \<and> st \<noteq> 201 \<and> st \<noteq> 409) tr)"
proof (induction rows arbitrary: created fails s)
  case Nil
  then show ?case by simp
next
  case (Cons row rows)
  obtain sv t where row: "row = (sv, t)" by (cases row)
  let ?rs = "post_row e sv t s"
  let ?st = "fst (fst ?rs)"
  let ?s1 = "snd ?rs"
  consider "?st = 200 \<or> ?st = 201" | "?st = 409" | "?st \<noteq> 200 \<and> ?st \<noteq> 201 \<and> ?st \<noteq> 409" by blast
  then show ?case
  proof cases
    case 1
    with Cons.IH [of "created + 1" fails ?s1] show ?thesis
      by (auto simp: row Let_def post_row_calls)
  next
    case 2
    with Cons.IH [of created fails ?s1] show ?thesis
      by (auto simp: row Let_def post_row_calls)
  next
    case 3
    with Cons.IH [of created "fails @ [(sv, fst ?rs)]" ?s1] show ?thesis
      by (auto simp: row Let_def post_row_calls call_service_def split_beta)
  qed
qed

lemma create_rows_loop_no_409:
  "\<forall>f\<in>set fails. fst (snd f) \<noteq> 409 \<Longrightarrow>
   \<forall>f\<in>set (snd (fst (create_rows_loop e rows created fails s))). fst (snd f) \<noteq> 409"
proof (induction rows arbitrary: created fails s)
  case Nil
  then show ?case by simp
next
  case (Cons row rows)
  obtain sv t where row: "row = (sv, t)" by (cases row)
  let ?rs = "post_row e sv t s"
  let ?st = "fst (fst ?rs)"
  let ?s1 = "snd ?rs"
  consider "?st = 200 \<or> ?st = 201" | "?st = 409" | "?st \<noteq> 200 \<and> ?st \<noteq> 201 \<and> ?st \<noteq> 409" by blast
  then show ?case
  proof cases
    case 1
    with Cons.IH [of fails "created + 1" ?s1, OF Cons.prems] show ?thesis
      by (auto simp: row Let_def)
  next
    case 2
    with Cons.IH [of fails created ?s1, OF Cons.prems] show ?thesis
      by (auto simp: row Let_def)
  next
    case 3
    from 3 Cons.prems have "\<forall>f\<in>set (fails @ [(sv, fst ?rs)]). fst (snd f) \<noteq> 409" by auto
    from Cons.IH [OF this, of created ?s1] 3 show ?thesis
      by (auto simp: row Let_def)
  qed
qed

lemma create_rows_loop_conflicts:
  assumes "\<forall>(sv, t)\<in>set rows. fst (fst (rows_post e (world s) sv t)) = 409 \<and> snd (rows_post e (world s) sv t) = world s"
  shows "fst (create_rows_loop e rows created fails s) = (created, fails)
     \<and> world (snd (create_rows_loop e rows created fails s)) = world s"
  using assms
proof (induction rows arbitrary: s)
  case Nil
  then show ?case by simp
next
  case (Cons row rows)
  obtain sv t where row: "row = (sv, t)" by (cases row)
  from Cons.prems have st: "fst (fst (post_row e sv t s)) = 409" and w: "world (snd (post_row e sv t s)) = world s"
    by (simp_all add: row post_row_fst post_row_world)
  from Cons.prems w have "\<forall>(sv', t')\<in>set rows. fst (fst (rows_post e (world (snd (post_row e sv t s))) sv' t')) = 409
      \<and> snd (rows_post e (world (snd (post_row e sv t s))) sv' t') = world (snd (post_row e sv t s))"
    by simp
  from Cons.IH [OF this] show ?case
    by (simp add: row Let_def st w)
qed

text \<open>
  C5. Row creation posts every row once, in order, whatever the earlier statuses were.
  The rows created are those answered 200 or 201 and the failures are exactly those
  answered anything other than 200, 201 and 409, so a conflict is never a failure. When
  the store answers every row with a conflict and keeps its state, as an unchanged store
  does for rows it already has, nothing is created, no failure is reported and the store
  is as it was.
\<close>

theorem create_conflict_is_success:
  assumes "r = create_reference_table_rows e rows s"
  shows "(\<exists>tr. calls (snd r) = calls s @ tr
            \<and> map fst tr = map (\<lambda>(sv, t). RowsPost sv t) rows
            \<and> fst (fst r) = length (filter (\<lambda>(c, st). st = 200 \<or> st = 201) tr)
            \<and> map (\<lambda>(sv, st, tx). (sv, st)) (snd (fst r))
                = map (\<lambda>(c, st). (call_service c, st))
                    (filter (\<lambda>(c, st). st \<noteq> 200 \<and> st \<noteq> 201 \<and> st \<noteq> 409) tr))
     \<and> (\<forall>f\<in>set (snd (fst r)). fst (snd f) \<noteq> 409)
     \<and> ((\<forall>(sv, t)\<in>set rows. fst (fst (rows_post e (world s) sv t)) = 409
                               \<and> snd (rows_post e (world s) sv t) = world s)
          \<longrightarrow> fst r = (0, []) \<and> world (snd r) = world s)"
proof -
  have a: "\<exists>tr. calls (snd r) = calls s @ tr
            \<and> map fst tr = map (\<lambda>(sv, t). RowsPost sv t) rows
            \<and> fst (fst r) = length (filter (\<lambda>(c, st). st = 200 \<or> st = 201) tr)
            \<and> map (\<lambda>(sv, st, tx). (sv, st)) (snd (fst r))
                = map (\<lambda>(c, st). (call_service c, st))
                    (filter (\<lambda>(c, st). st \<noteq> 200 \<and> st \<noteq> 201 \<and> st \<noteq> 409) tr)"
    using create_rows_loop_trace [of e rows 0 "[]" s]
    by (simp add: assms create_reference_table_rows_def)
  have b: "\<forall>f\<in>set (snd (fst r)). fst (snd f) \<noteq> 409"
    using create_rows_loop_no_409 [of "[]" e rows 0 s]
    by (simp add: assms create_reference_table_rows_def)
  have c: "(\<forall>(sv, t)\<in>set rows. fst (fst (rows_post e (world s) sv t)) = 409
                               \<and> snd (rows_post e (world s) sv t) = world s)
          \<longrightarrow> fst r = (0, []) \<and> world (snd r) = world s"
    using create_rows_loop_conflicts [of rows e s 0 "[]"]
    by (simp add: assms create_reference_table_rows_def)
  from a b c show ?thesis by blast
qed

lemma first_run:
  "create_reference_table_rows table_env two_rows \<lparr>world = [''a''], calls = []\<rparr>
     = ((2, []), \<lparr>world = [''a'', ''b'', ''c''],
                  calls = [(RowsPost ''b'' ''team 1'', 201), (RowsPost ''c'' ''team 2'', 201)]\<rparr>)"
  by (simp add: create_reference_table_rows_def two_rows_def post_row_def table_env_def Let_def)

theorem create_conflict_is_success_witness:
  "snd (create_reference_table_rows table_env two_rows \<lparr>world = [''a''], calls = []\<rparr>)
     = \<lparr>world = [''a'', ''b'', ''c''], calls = [(RowsPost ''b'' ''team 1'', 201), (RowsPost ''c'' ''team 2'', 201)]\<rparr>
   \<and> rows_post table_env [''a'', ''b'', ''c''] ''b'' ''team 1'' = ((409, ''conflict''), [''a'', ''b'', ''c''])
   \<and> rows_post table_env [''a'', ''b'', ''c''] ''c'' ''team 2'' = ((409, ''conflict''), [''a'', ''b'', ''c''])
   \<and> fst (create_reference_table_rows table_env two_rows
            (snd (create_reference_table_rows table_env two_rows \<lparr>world = [''a''], calls = []\<rparr>))) = (0, [])
   \<and> world (snd (create_reference_table_rows table_env two_rows
            (snd (create_reference_table_rows table_env two_rows \<lparr>world = [''a''], calls = []\<rparr>))))
       = [''a'', ''b'', ''c'']"
proof -
  let ?s1 = "snd (create_reference_table_rows table_env two_rows \<lparr>world = [''a''], calls = []\<rparr>)"
  have s1: "?s1 = \<lparr>world = [''a'', ''b'', ''c''], calls = [(RowsPost ''b'' ''team 1'', 201), (RowsPost ''c'' ''team 2'', 201)]\<rparr>"
    by (simp add: first_run)
  have b: "rows_post table_env [''a'', ''b'', ''c''] ''b'' ''team 1'' = ((409, ''conflict''), [''a'', ''b'', ''c''])"
    and c: "rows_post table_env [''a'', ''b'', ''c''] ''c'' ''team 2'' = ((409, ''conflict''), [''a'', ''b'', ''c''])"
    by (simp_all add: table_env_def)
  from b c have h': "\<forall>(sv, t)\<in>set two_rows. fst (fst (rows_post table_env (world ?s1) sv t)) = 409
                               \<and> snd (rows_post table_env (world ?s1) sv t) = world ?s1"
    unfolding s1 by (simp add: two_rows_def)
  from create_conflict_is_success [OF refl, of table_env two_rows ?s1] h'
  have "fst (create_reference_table_rows table_env two_rows ?s1) = (0, [])
      \<and> world (snd (create_reference_table_rows table_env two_rows ?s1)) = world ?s1"
    by blast
  with s1 b c show ?thesis by simp
qed

subsection \<open>Upsert loop\<close>

lemma upsert_calls:
  "calls (snd (upsert_service_definition e sv t s))
     = calls s @ [(DefinitionsPost sv t, fst (fst (definitions_post e (world s) sv t)))]"
  by (simp add: upsert_service_definition_def post_definition_def Let_def split: prod.split)

lemma upsert_ok:
  "fst (fst (upsert_service_definition e sv t s))
     \<longleftrightarrow> fst (fst (definitions_post e (world s) sv t)) = 200 \<or> fst (fst (definitions_post e (world s) sv t)) = 201"
  by (simp add: upsert_service_definition_def post_definition_def Let_def split: prod.split)

lemma upsert_msg_status:
  "msg_status (snd (fst (upsert_service_definition e sv t s))) = fst (fst (definitions_post e (world s) sv t))
   \<or> fst (fst (upsert_service_definition e sv t s))"
  by (simp add: upsert_service_definition_def post_definition_def Let_def msg_status_def split: prod.split)

lemma upsert_loop_skipped_live:
  "skipped (fst (upsert_loop e False mapping svs c s)) = skipped c + length (filter (\<lambda>sv. team_of mapping sv = []) svs)
   \<and> missing_team (fst (upsert_loop e False mapping svs c s)) = missing_team c @ filter (\<lambda>sv. team_of mapping sv = []) svs"
  by (induction svs arbitrary: c s) (simp_all add: Let_def)

lemma upsert_loop_total_live:
  "updated (fst (upsert_loop e False mapping svs c s)) + skipped (fst (upsert_loop e False mapping svs c s))
     + failures (fst (upsert_loop e False mapping svs c s))
   = updated c + skipped c + failures c + length svs"
  by (induction svs arbitrary: c s) (simp_all add: Let_def)

lemma upsert_loop_dry:
  "upsert_loop e True mapping svs c s =
     (c\<lparr>updated := updated c + length (filter (\<lambda>sv. team_of mapping sv \<noteq> []) svs),
        skipped := skipped c + length (filter (\<lambda>sv. team_of mapping sv = []) svs),
        missing_team := missing_team c @ filter (\<lambda>sv. team_of mapping sv = []) svs\<rparr>, s)"
  by (induction svs arbitrary: c s) (simp_all add: Let_def)

lemma upsert_loop_skipped:
  "skipped (fst (upsert_loop e dry mapping svs c s)) = skipped c + length (filter (\<lambda>sv. team_of mapping sv = []) svs)
   \<and> missing_team (fst (upsert_loop e dry mapping svs c s)) = missing_team c @ filter (\<lambda>sv. team_of mapping sv = []) svs"
  by (cases dry) (simp_all add: upsert_loop_dry upsert_loop_skipped_live)

lemma length_filter_split:
  "length (filter P xs) + length (filter (\<lambda>x. \<not> P x) xs) = length xs"
  by (induction xs) simp_all

lemma upsert_loop_total:
  "updated (fst (upsert_loop e dry mapping svs c s)) + skipped (fst (upsert_loop e dry mapping svs c s))
     + failures (fst (upsert_loop e dry mapping svs c s))
   = updated c + skipped c + failures c + length svs"
proof (cases dry)
  case True
  with length_filter_split [of "\<lambda>sv. team_of mapping sv = []" svs] show ?thesis
    by (simp add: upsert_loop_dry)
next
  case False
  then show ?thesis by (simp add: upsert_loop_total_live)
qed

lemma upsert_loop_attempted:
  "updated (fst (upsert_loop e False mapping svs c s)) + failures (fst (upsert_loop e False mapping svs c s))
   = updated c + failures c + length (filter (\<lambda>sv. team_of mapping sv \<noteq> []) svs)"
  by (induction svs arbitrary: c s) (simp_all add: Let_def)

lemma upsert_loop_live_trace:
  "\<exists>tr. calls (snd (upsert_loop e False mapping svs c s)) = calls s @ tr
     \<and> map fst tr = map (\<lambda>sv. DefinitionsPost sv (team_of mapping sv)) (filter (\<lambda>sv. team_of mapping sv \<noteq> []) svs)
     \<and> updated (fst (upsert_loop e False mapping svs c s))
         = updated c + length (filter (\<lambda>(c, st). st = 200 \<or> st = 201) tr)
     \<and> failures (fst (upsert_loop e False mapping svs c s))
         = failures c + length (filter (\<lambda>(c, st). st \<noteq> 200 \<and> st \<noteq> 201) tr)
     \<and> map (\<lambda>(sv, msg). (sv, msg_status msg)) (failed_lines (fst (upsert_loop e False mapping svs c s)))
         = map (\<lambda>(sv, msg). (sv, msg_status msg)) (failed_lines c)
           @ map (\<lambda>(c, st). (call_service c, st)) (filter (\<lambda>(c, st). st \<noteq> 200 \<and> st \<noteq> 201) tr)"
proof (induction svs arbitrary: c s)
  case Nil
  then show ?case by simp
next
  case (Cons sv svs)
  let ?t = "team_of mapping sv"
  let ?rs = "upsert_service_definition e sv ?t s"
  let ?st = "fst (fst (definitions_post e (world s) sv ?t))"
  consider "?t = []" | "?t \<noteq> []" "fst (fst ?rs)" | "?t \<noteq> []" "\<not> fst (fst ?rs)" by blast
  then show ?case
  proof cases
    case 1
    with Cons.IH [of "c\<lparr>skipped := skipped c + 1, missing_team := missing_team c @ [sv]\<rparr>" s] show ?thesis
      by (simp add: Let_def)
  next
    case 2
    then have "?st = 200 \<or> ?st = 201" by (simp add: upsert_ok)
    with 2 Cons.IH [of "c\<lparr>updated := updated c + 1\<rparr>" "snd ?rs"] show ?thesis
      by (auto simp: Let_def upsert_calls)
  next
    case 3
    then have st: "?st \<noteq> 200 \<and> ?st \<noteq> 201" by (simp add: upsert_ok)
    from 3 upsert_msg_status [of e sv ?t s] have m: "msg_status (snd (fst ?rs)) = ?st" by blast
    from 3 st m Cons.IH [of "c\<lparr>failures := failures c + 1, failed_lines := failed_lines c @ [(sv, snd (fst ?rs))]\<rparr>" "snd ?rs"]
    show ?thesis
      by (auto simp: Let_def upsert_calls call_service_def)
  qed
qed

lemma main_summary:
  "services \<noteq> [] \<Longrightarrow> fst (get_reference_table_rows_by_id e services sc tc s0) = Inr m0 \<Longrightarrow>
   \<exists>sm. fst (main e dry sc tc services s0) = Inr (Summary sm)"
  by (cases "get_reference_table_rows_by_id e services sc tc s0") (simp add: main_def Let_def)

text \<open>
  C6. In a live run the upsert loop posts one definition for each service that has a
  team, in sorted order and each once, whatever the statuses of the others were: the
  requests issued depend on the services and the mapping only. Each status other than
  200 and 201 adds one to the failure count and one diagnostic line with the service and
  the status; each 200 or 201 adds one to the updated count. A failure ends nothing:
  when the resolver returns a mapping, \<open>main\<close> returns a summary.
\<close>

theorem upsert_failures_isolated:
  assumes "distinct services"
    and "r = upsert_loop e False mapping (sort services) counters0 s"
  shows "(\<exists>tr. calls (snd r) = calls s @ tr
            \<and> map fst tr = map (\<lambda>sv. DefinitionsPost sv (team_of mapping sv))
                             (filter (\<lambda>sv. team_of mapping sv \<noteq> []) (sort services))
            \<and> distinct (map fst tr)
            \<and> updated (fst r) = length (filter (\<lambda>(c, st). st = 200 \<or> st = 201) tr)
            \<and> failures (fst r) = length (filter (\<lambda>(c, st). st \<noteq> 200 \<and> st \<noteq> 201) tr)
            \<and> map (\<lambda>(sv, msg). (sv, msg_status msg)) (failed_lines (fst r))
                = map (\<lambda>(c, st). (call_service c, st)) (filter (\<lambda>(c, st). st \<noteq> 200 \<and> st \<noteq> 201) tr))
     \<and> (services \<noteq> [] \<and> fst (get_reference_table_rows_by_id e services sc tc s0) = Inr m0
          \<longrightarrow> (\<exists>sm. fst (main e False sc tc services s0) = Inr (Summary sm)))"
proof -
  from upsert_loop_live_trace [of e mapping "sort services" counters0 s]
  obtain tr where tr: "calls (snd r) = calls s @ tr"
    "map fst tr = map (\<lambda>sv. DefinitionsPost sv (team_of mapping sv))
                             (filter (\<lambda>sv. team_of mapping sv \<noteq> []) (sort services))"
    "updated (fst r) = length (filter (\<lambda>(c, st). st = 200 \<or> st = 201) tr)"
    "failures (fst r) = length (filter (\<lambda>(c, st). st \<noteq> 200 \<and> st \<noteq> 201) tr)"
    "map (\<lambda>(sv, msg). (sv, msg_status msg)) (failed_lines (fst r))
                = map (\<lambda>(c, st). (call_service c, st)) (filter (\<lambda>(c, st). st \<noteq> 200 \<and> st \<noteq> 201) tr)"
    unfolding assms(2) by (auto simp: counters0_def)
  have "distinct (filter (\<lambda>sv. team_of mapping sv \<noteq> []) (sort services))"
    using assms(1) by simp
  moreover have "inj_on (\<lambda>sv. DefinitionsPost sv (team_of mapping sv)) A" for A
    by (simp add: inj_on_def)
  ultimately have d: "distinct (map fst tr)"
    unfolding tr(2) by (simp add: distinct_map)
  have m: "services \<noteq> [] \<and> fst (get_reference_table_rows_by_id e services sc tc s0) = Inr m0
          \<longrightarrow> (\<exists>sm. fst (main e False sc tc services s0) = Inr (Summary sm))"
    using main_summary by blast
  from tr d m show ?thesis by blast
qed

lemma sort_yxa: "sort [''y'', ''x'', ''a''] = [''a'', ''x'', ''y'']"
  by code_simp

lemma teams_axy:
  "team_of map_axy ''a'' = ''team 1''" "team_of map_axy ''x'' = ''team 2''" "team_of map_axy ''y'' = ''team 1''"
  by code_simp+

lemma run_yxa:
  "upsert_loop env_x500 False map_axy [''a'', ''x'', ''y''] counters0 io0 =
     (\<lparr>updated = 2, skipped = 0, failures = 1, missing_team = [],
       failed_lines = [(''x'', StatusText 500 ''boom'')]\<rparr>,
      \<lparr>world = (), calls = [(DefinitionsPost ''a'' ''team 1'', 200), (DefinitionsPost ''x'' ''team 2'', 500),
                            (DefinitionsPost ''y'' ''team 1'', 200)]\<rparr>)"
  by (simp add: teams_axy Let_def upsert_service_definition_def post_definition_def env_x500_def
      stateless_def counters0_def io0_def)

theorem upsert_failures_isolated_witness:
  "distinct [''y'', ''x'', ''a'']
   \<and> failures (fst (upsert_loop env_x500 False map_axy (sort [''y'', ''x'', ''a'']) counters0 io0)) = 1
   \<and> updated (fst (upsert_loop env_x500 False map_axy (sort [''y'', ''x'', ''a'']) counters0 io0)) = 2
   \<and> calls (snd (upsert_loop env_x500 False map_axy (sort [''y'', ''x'', ''a'']) counters0 io0))
       = [(DefinitionsPost ''a'' ''team 1'', 200), (DefinitionsPost ''x'' ''team 2'', 500),
          (DefinitionsPost ''y'' ''team 1'', 200)]
   \<and> distinct (map fst (calls (snd (upsert_loop env_x500 False map_axy (sort [''y'', ''x'', ''a'']) counters0 io0))))"
proof -
  let ?r = "upsert_loop env_x500 False map_axy (sort [''y'', ''x'', ''a'']) counters0 io0"
  have h: "distinct [''y'', ''x'', ''a'']" by simp
  from upsert_failures_isolated [OF h refl, of env_x500 map_axy io0]
  obtain tr where tr: "calls (snd ?r) = calls io0 @ tr" "distinct (map fst tr)"
    "failures (fst ?r) = length (filter (\<lambda>(c, st). st \<noteq> 200 \<and> st \<noteq> 201) tr)"
    "updated (fst ?r) = length (filter (\<lambda>(c, st). st = 200 \<or> st = 201) tr)"
    by blast
  have c: "calls (snd ?r) = [(DefinitionsPost ''a'' ''team 1'', 200), (DefinitionsPost ''x'' ''team 2'', 500),
          (DefinitionsPost ''y'' ''team 1'', 200)]"
    unfolding sort_yxa run_yxa by simp
  with tr(1) have t: "tr = [(DefinitionsPost ''a'' ''team 1'', 200), (DefinitionsPost ''x'' ''team 2'', 500),
          (DefinitionsPost ''y'' ''team 1'', 200)]"
    by (simp add: io0_def)
  from tr(3) t have f: "failures (fst ?r) = 1" by simp
  from tr(4) t have u: "updated (fst ?r) = 2" by simp
  from tr(1,2) have d: "distinct (map fst (calls (snd ?r)))" by (simp add: io0_def)
  from h f u c d show ?thesis by blast
qed

subsection \<open>main: the run as a whole\<close>

lemma rows_loop_only_gets:
  "\<exists>tr. calls (snd (rows_loop e sc tc rl starts m s)) = calls s @ tr \<and> (\<forall>x\<in>set tr. \<exists>ch. fst x = RowsGet ch)"
proof (induction starts arbitrary: m s)
  case Nil
  then show ?case by simp
next
  case (Cons start starts)
  let ?s1 = "snd (get_rows e (take chunk_size (drop start rl)) s)"
  have one: "\<exists>tr. calls ?s1 = calls s @ tr \<and> (\<forall>x\<in>set tr. \<exists>ch. fst x = RowsGet ch)"
    by (simp add: get_rows_calls)
  have more: "\<exists>tr. calls (snd (rows_loop e sc tc rl starts m' ?s1)) = calls s @ tr \<and> (\<forall>x\<in>set tr. \<exists>ch. fst x = RowsGet ch)" for m'
    using Cons.IH [of m' ?s1] by (auto simp: get_rows_calls)
  from one more show ?case by (simp add: Let_def)
qed

lemma resolver_only_gets:
  "\<exists>tr. calls (snd (get_reference_table_rows_by_id e ids sc tc s)) = calls s @ tr
     \<and> (\<forall>x\<in>set tr. \<exists>ch. fst x = RowsGet ch)"
  using rows_loop_only_gets [of e sc tc "filter (\<lambda>r. r \<noteq> []) ids" _ Map.empty s]
  by (simp add: get_reference_table_rows_by_id_def Let_def)

lemma fill_gaps_mapping:
  "snd (snd (fst (fill_gaps e dry m svs s1))) = m ++ map_of (assign_dummy_teams (missing_services m svs))"
  by (simp add: fill_gaps_def Let_def)

lemma fill_gaps_dry: "snd (fill_gaps e True m svs s1) = s1"
  by (simp add: fill_gaps_def Let_def)

lemma fill_gaps_live_calls:
  "\<exists>tr. calls (snd (fill_gaps e False m svs s1)) = calls s1 @ tr
     \<and> map fst tr = map (\<lambda>(sv, t). RowsPost sv t) (assign_dummy_teams (missing_services m svs))"
  using create_rows_loop_trace [of e "assign_dummy_teams (missing_services m svs)" 0 "[]" s1]
  by (auto simp: fill_gaps_def Let_def create_reference_table_rows_def)



lemma main_eq:
  assumes "services \<noteq> []" and "get_reference_table_rows_by_id e services sc tc s = (Inr mapping, s1)"
  shows "main e dry sc tc services s =
     (Inr (Summary (counters.extend
        (fst (upsert_loop e dry (mapping ++ map_of (assign_dummy_teams (missing_services mapping services)))
               (sort services) counters0 (snd (fill_gaps e dry mapping services s1))))
        \<lparr>found = length services, rows_created = fst (fst (fill_gaps e dry mapping services s1)),
         insert_failures = fst (snd (fst (fill_gaps e dry mapping services s1)))\<rparr>)),
      snd (upsert_loop e dry (mapping ++ map_of (assign_dummy_teams (missing_services mapping services)))
               (sort services) counters0 (snd (fill_gaps e dry mapping services s1))))"
  using assms by (simp add: main_def Let_def fill_gaps_mapping)

lemma extend_sel:
  "updated (counters.extend c m) = updated c" "skipped (counters.extend c m) = skipped c"
  "failures (counters.extend c m) = failures c" "missing_team (counters.extend c m) = missing_team c"
  "failed_lines (counters.extend c m) = failed_lines c"
  "found (counters.extend c \<lparr>found = f, rows_created = rc, insert_failures = fl\<rparr>) = f"
  by (simp_all add: counters.defs)

lemma upsert_loop_failed_services:
  "set (map fst (failed_lines (fst (upsert_loop e dry mapping svs c s))))
     \<subseteq> set (map fst (failed_lines c)) \<union> {sv \<in> set svs. team_of mapping sv \<noteq> []}"
proof (cases dry)
  case True
  then show ?thesis by (simp add: upsert_loop_dry)
next
  case False
  have "set (map fst (failed_lines (fst (upsert_loop e False mapping svs c s))))
     \<subseteq> set (map fst (failed_lines c)) \<union> {sv \<in> set svs. team_of mapping sv \<noteq> []}"
  proof (induction svs arbitrary: c s)
    case Nil
    then show ?case by simp
  next
    case (Cons sv svs)
    let ?rs = "upsert_service_definition e sv (team_of mapping sv) s"
    from Cons.IH [of "c\<lparr>skipped := skipped c + 1, missing_team := missing_team c @ [sv]\<rparr>" s]
      Cons.IH [of "c\<lparr>updated := updated c + 1\<rparr>" "snd ?rs"]
      Cons.IH [of "c\<lparr>failures := failures c + 1, failed_lines := failed_lines c @ [(sv, snd (fst ?rs))]\<rparr>" "snd ?rs"]
    show ?case by (auto simp: Let_def)
  qed
  with False show ?thesis by simp
qed

lemma upsert_loop_calls:
  "\<exists>tr. calls (snd (upsert_loop e dry mapping svs c s)) = calls s @ tr
     \<and> map fst tr = (if dry then []
                      else map (\<lambda>sv. DefinitionsPost sv (team_of mapping sv)) (filter (\<lambda>sv. team_of mapping sv \<noteq> []) svs))"
proof (cases dry)
  case True
  then show ?thesis by (simp add: upsert_loop_dry)
next
  case False
  with upsert_loop_live_trace [of e mapping svs c s] show ?thesis by auto
qed

lemma fill_gaps_calls:
  "\<exists>tr. calls (snd (fill_gaps e dry m svs s1)) = calls s1 @ tr
     \<and> map fst tr = (if dry then [] else map (\<lambda>(sv, t). RowsPost sv t) (assign_dummy_teams (missing_services m svs)))"
proof (cases dry)
  case True
  then show ?thesis by (simp add: fill_gaps_dry)
next
  case False
  with fill_gaps_live_calls [of e m svs s1] show ?thesis by auto
qed

lemma map_fst_elems:
  "map fst tr = map f xs \<Longrightarrow> \<forall>x\<in>set tr. \<exists>y\<in>set xs. fst x = f y"
proof
  fix x assume a: "map fst tr = map f xs" "x \<in> set tr"
  from a(2) have "fst x \<in> set (map fst tr)" by simp
  then have "fst x \<in> set (map f xs)" by (simp only: a(1))
  then have "fst x \<in> f ` set xs" by simp
  then show "\<exists>y\<in>set xs. fst x = f y" by blast
qed

lemma main_run:
  assumes "services \<noteq> []" and "get_reference_table_rows_by_id e services sc tc s = (Inr mapping, s1)"
    and "mapping1 = mapping ++ map_of (assign_dummy_teams (missing_services mapping services))"
  shows "\<exists>sm s' trG trP trD. main e dry sc tc services s = (Inr (Summary sm), s')
      \<and> calls s' = calls s @ trG @ trP @ trD
      \<and> (\<forall>x\<in>set trG. \<exists>ch. fst x = RowsGet ch)
      \<and> (\<forall>x\<in>set trP. \<not> dry \<and> (\<exists>sv t. fst x = RowsPost sv t
              \<and> (sv, t) \<in> set (assign_dummy_teams (missing_services mapping services))))
      \<and> (\<forall>x\<in>set trD. \<not> dry \<and> (\<exists>sv\<in>set services. fst x = DefinitionsPost sv (team_of mapping1 sv)
              \<and> team_of mapping1 sv \<noteq> []))
      \<and> found sm = length services
      \<and> missing_team sm = filter (\<lambda>sv. team_of mapping1 sv = []) (sort services)
      \<and> skipped sm = length (filter (\<lambda>sv. team_of mapping1 sv = []) (sort services))
      \<and> updated sm + skipped sm + failures sm = length services
      \<and> set (map fst (failed_lines sm)) \<subseteq> {sv \<in> set services. team_of mapping1 sv \<noteq> []}"
proof -
  let ?fg = "fill_gaps e dry mapping services s1"
  let ?ul = "upsert_loop e dry mapping1 (sort services) counters0 (snd ?fg)"
  let ?sm = "counters.extend (fst ?ul)
        \<lparr>found = length services, rows_created = fst (fst ?fg), insert_failures = fst (snd (fst ?fg))\<rparr>"
  have m: "main e dry sc tc services s = (Inr (Summary ?sm), snd ?ul)"
    unfolding assms(3) by (rule main_eq [OF assms(1,2)])
  from resolver_only_gets [of e services sc tc s] assms(2)
  obtain trG where g: "calls s1 = calls s @ trG" "\<forall>x\<in>set trG. \<exists>ch. fst x = RowsGet ch" by auto
  from fill_gaps_calls [of e dry mapping services s1]
  obtain trP where p: "calls (snd ?fg) = calls s1 @ trP"
    "map fst trP = (if dry then [] else map (\<lambda>(sv, t). RowsPost sv t) (assign_dummy_teams (missing_services mapping services)))"
    by blast
  from upsert_loop_calls [of e dry mapping1 "sort services" counters0 "snd ?fg"]
  obtain trD where d: "calls (snd ?ul) = calls (snd ?fg) @ trD"
    "map fst trD = (if dry then [] else map (\<lambda>sv. DefinitionsPost sv (team_of mapping1 sv))
        (filter (\<lambda>sv. team_of mapping1 sv \<noteq> []) (sort services)))"
    by blast
  have c: "calls (snd ?ul) = calls s @ trG @ trP @ trD" by (simp add: g p d)
  have p': "\<forall>x\<in>set trP. \<not> dry \<and> (\<exists>sv t. fst x = RowsPost sv t
              \<and> (sv, t) \<in> set (assign_dummy_teams (missing_services mapping services)))"
  proof (cases dry)
    case True
    with p(2) show ?thesis by simp
  next
    case False
    with p(2) have "map fst trP = map (\<lambda>(sv, t). RowsPost sv t) (assign_dummy_teams (missing_services mapping services))"
      by simp
    from map_fst_elems [OF this] False show ?thesis by fastforce
  qed
  have d': "\<forall>x\<in>set trD. \<not> dry \<and> (\<exists>sv\<in>set services. fst x = DefinitionsPost sv (team_of mapping1 sv)
              \<and> team_of mapping1 sv \<noteq> [])"
  proof (cases dry)
    case True
    with d(2) show ?thesis by simp
  next
    case False
    with d(2) have "map fst trD = map (\<lambda>sv. DefinitionsPost sv (team_of mapping1 sv))
        (filter (\<lambda>sv. team_of mapping1 sv \<noteq> []) (sort services))"
      by simp
    from map_fst_elems [OF this] False show ?thesis by fastforce
  qed
  have f: "found ?sm = length services" by (simp add: extend_sel)
  have k: "missing_team ?sm = filter (\<lambda>sv. team_of mapping1 sv = []) (sort services)"
    "skipped ?sm = length (filter (\<lambda>sv. team_of mapping1 sv = []) (sort services))"
    using upsert_loop_skipped [of e dry mapping1 "sort services" counters0 "snd ?fg"]
    by (simp_all add: extend_sel counters0_def)
  have t: "updated ?sm + skipped ?sm + failures ?sm = length services"
    using upsert_loop_total [of e dry mapping1 "sort services" counters0 "snd ?fg"]
    by (simp add: extend_sel counters0_def)
  have fl: "set (map fst (failed_lines ?sm)) \<subseteq> {sv \<in> set services. team_of mapping1 sv \<noteq> []}"
    using upsert_loop_failed_services [of e dry mapping1 "sort services" counters0 "snd ?fg"]
    by (simp add: extend_sel counters0_def)
  from m c g(2) p' d' f k t fl show ?thesis by blast
qed

subsection \<open>Outcome classes\<close>

lemma strip_examples:
  "strip ''e'' = ''e''" "strip ''a'' = ''a''" "strip ''  '' = []" "strip ''team 5'' = ''team 5''"
  by code_simp+

lemma resolve_gap:
  "get_reference_table_rows_by_id env_gap [''e'', ''b'', ''a''] ''service'' ''team'' io0
     = (Inr [''e'' \<mapsto> [], ''a'' \<mapsto> ''team 5''], \<lparr>world = (), calls = [(RowsGet [''e'', ''b'', ''a''], 200)]\<rparr>)"
  by (simp add: get_reference_table_rows_by_id_def chunk_starts_def upt_rec get_rows_def env_gap_def stateless_def
      ok_rows_def row_of_def record_row_def extract_row_values_def bag_get_def strip_examples
      io0_def chunk_size_def Let_def)

lemma run_gap_live:
  "main env_gap False ''service'' ''team'' [''e'', ''b'', ''a''] io0 =
     (Inr (Summary \<lparr>updated = 1, skipped = 1, failures = 1, missing_team = [''e''],
                    failed_lines = [(''b'', StatusText 500 ''boom'')], found = 3,
                    rows_created = 1, insert_failures = []\<rparr>),
      \<lparr>world = (), calls = [(RowsGet [''e'', ''b'', ''a''], 200), (RowsPost ''b'' ''team 1'', 201),
                            (DefinitionsPost ''a'' ''team 5'', 200), (DefinitionsPost ''b'' ''team 1'', 500)]\<rparr>)"
  by code_simp

lemma run_gap_dry:
  "main env_gap True ''service'' ''team'' [''e'', ''b'', ''a''] io0 =
     (Inr (Summary \<lparr>updated = 2, skipped = 1, failures = 0, missing_team = [''e''],
                    failed_lines = [], found = 3, rows_created = 0, insert_failures = []\<rparr>),
      \<lparr>world = (), calls = [(RowsGet [''e'', ''b'', ''a''], 200)]\<rparr>)"
  by code_simp

text \<open>
  C9. In a run that reaches the upsert loop, the services listed as skipped are exactly
  the discovered services whose team, in the mapping as it is after gap filling, is
  empty after stripping; each is listed once and the skipped count is their number. Every
  service is counted in exactly one of updated, skipped and failed (the three counts add
  up to the number of services found), no skipped service has a failure line, and no
  definition is posted for a skipped service.
\<close>

theorem skipped_iff_no_team:
  assumes "distinct services" and "services \<noteq> []"
    and "get_reference_table_rows_by_id e services sc tc s = (Inr mapping, s1)"
    and "mapping1 = mapping ++ map_of (assign_dummy_teams (missing_services mapping services))"
  shows "\<exists>sm s'. main e dry sc tc services s = (Inr (Summary sm), s')
     \<and> (\<forall>sv. sv \<in> set (missing_team sm) \<longleftrightarrow> sv \<in> set services \<and> team_of mapping1 sv = [])
     \<and> distinct (missing_team sm)
     \<and> skipped sm = length (missing_team sm)
     \<and> found sm = length services
     \<and> updated sm + skipped sm + failures sm = found sm
     \<and> set (map fst (failed_lines sm)) \<inter> set (missing_team sm) = {}
     \<and> (\<forall>sv\<in>set (missing_team sm). \<forall>t st. (DefinitionsPost sv t, st) \<notin> set (drop (length (calls s)) (calls s')))"
proof -
  from main_run [OF assms(2,3,4), of dry]
  obtain sm s' trG trP trD where r: "main e dry sc tc services s = (Inr (Summary sm), s')"
    "calls s' = calls s @ trG @ trP @ trD"
    "\<forall>x\<in>set trG. \<exists>ch. fst x = RowsGet ch"
    "\<forall>x\<in>set trP. \<not> dry \<and> (\<exists>sv t. fst x = RowsPost sv t
              \<and> (sv, t) \<in> set (assign_dummy_teams (missing_services mapping services)))"
    "\<forall>x\<in>set trD. \<not> dry \<and> (\<exists>sv\<in>set services. fst x = DefinitionsPost sv (team_of mapping1 sv)
              \<and> team_of mapping1 sv \<noteq> [])"
    "found sm = length services"
    "missing_team sm = filter (\<lambda>sv. team_of mapping1 sv = []) (sort services)"
    "skipped sm = length (filter (\<lambda>sv. team_of mapping1 sv = []) (sort services))"
    "updated sm + skipped sm + failures sm = length services"
    "set (map fst (failed_lines sm)) \<subseteq> {sv \<in> set services. team_of mapping1 sv \<noteq> []}"
    by blast
  have a: "\<forall>sv. sv \<in> set (missing_team sm) \<longleftrightarrow> sv \<in> set services \<and> team_of mapping1 sv = []"
    by (auto simp: r(7))
  have b: "distinct (missing_team sm)" using assms(1) by (simp add: r(7))
  have c: "set (map fst (failed_lines sm)) \<inter> set (missing_team sm) = {}"
    using r(10) a by auto
  have d: "\<forall>sv\<in>set (missing_team sm). \<forall>t st. (DefinitionsPost sv t, st) \<notin> set (drop (length (calls s)) (calls s'))"
  proof (intro ballI allI notI)
    fix sv t st
    assume sv: "sv \<in> set (missing_team sm)" and x: "(DefinitionsPost sv t, st) \<in> set (drop (length (calls s)) (calls s'))"
    from x have "(DefinitionsPost sv t, st) \<in> set trG \<union> set trP \<union> set trD" by (simp add: r(2))
    with r(3) r(4) r(5) have "team_of mapping1 sv \<noteq> []" by fastforce
    with sv a show False by simp
  qed
  from r(1) a b r(6) r(7) r(8) r(9) c d show ?thesis by auto
qed

theorem skipped_iff_no_team_witness:
  "distinct [''e'', ''b'', ''a''] \<and> [''e'', ''b'', ''a''] \<noteq> []
   \<and> get_reference_table_rows_by_id env_gap [''e'', ''b'', ''a''] ''service'' ''team'' io0
       = (Inr [''e'' \<mapsto> [], ''a'' \<mapsto> ''team 5''], \<lparr>world = (), calls = [(RowsGet [''e'', ''b'', ''a''], 200)]\<rparr>)
   \<and> (\<exists>sm s'. main env_gap False ''service'' ''team'' [''e'', ''b'', ''a''] io0 = (Inr (Summary sm), s')
         \<and> updated sm + skipped sm + failures sm = found sm
         \<and> skipped sm = length (missing_team sm)
         \<and> set (map fst (failed_lines sm)) \<inter> set (missing_team sm) = {}
         \<and> missing_team sm = [''e''] \<and> updated sm = 1 \<and> failures sm = 1 \<and> found sm = 3)"
proof -
  have h1: "distinct [''e'', ''b'', ''a'']" by simp
  have h2: "[''e'', ''b'', ''a''] \<noteq> []" by simp
  from skipped_iff_no_team [OF h1 h2 resolve_gap refl, of False]
  obtain sm s' where r: "main env_gap False ''service'' ''team'' [''e'', ''b'', ''a''] io0 = (Inr (Summary sm), s')"
    "updated sm + skipped sm + failures sm = found sm" "skipped sm = length (missing_team sm)"
    "set (map fst (failed_lines sm)) \<inter> set (missing_team sm) = {}"
    by blast
  from r(1) have sm: "sm = \<lparr>updated = 1, skipped = 1, failures = 1, missing_team = [''e''],
                    failed_lines = [(''b'', StatusText 500 ''boom'')], found = 3,
                    rows_created = 1, insert_failures = []\<rparr>"
    by (simp add: run_gap_live)
  have v: "missing_team sm = [''e''] \<and> updated sm = 1 \<and> failures sm = 1 \<and> found sm = 3"
    by (simp add: sm)
  from h1 h2 resolve_gap r v show ?thesis by blast
qed

subsection \<open>Dry run\<close>

lemma main_no_services: "main e dry sc tc [] s = (Inr NoServices, s)"
  by (simp add: main_def)

lemma main_abort:
  "services \<noteq> [] \<Longrightarrow> get_reference_table_rows_by_id e services sc tc s = (Inl err, s1) \<Longrightarrow>
   main e dry sc tc services s = (Inl err, s1)"
  by (simp add: main_def)

text \<open>
  C8 (as amended). A dry run issues row lookups only: no row is posted and no definition
  is posted. It ends as the live run from the same state does up to the resolver (the
  same error, or no services); and when both give a summary, found, skipped and the list
  of services without a team are the same, while the dry run counts as updated every
  service that has a team, that is the live run's updated plus its failed, and its own
  failed is 0.
\<close>

theorem dry_run_projection:
  assumes "d = main e True sc tc services s" and "l = main e False sc tc services s"
  shows "(\<exists>tr. calls (snd d) = calls s @ tr \<and> (\<forall>x\<in>set tr. \<exists>ch. fst x = RowsGet ch))
     \<and> (\<forall>err. (fst d = Inl err) = (fst l = Inl err))
     \<and> ((fst d = Inr NoServices) = (fst l = Inr NoServices))
     \<and> (\<forall>sd sl. fst d = Inr (Summary sd) \<and> fst l = Inr (Summary sl) \<longrightarrow>
           found sd = found sl \<and> skipped sd = skipped sl \<and> missing_team sd = missing_team sl
           \<and> updated sd = updated sl + failures sl \<and> failures sd = 0)"
proof (cases "services = []")
  case True
  then have "d = (Inr NoServices, s)" "l = (Inr NoServices, s)"
    by (simp_all add: assms main_no_services)
  then show ?thesis by simp
next
  case ne: False
  obtain res s1 where g: "get_reference_table_rows_by_id e services sc tc s = (res, s1)"
    by (cases "get_reference_table_rows_by_id e services sc tc s")
  from resolver_only_gets [of e services sc tc s] g
  obtain trG where trG: "calls s1 = calls s @ trG" "\<forall>x\<in>set trG. \<exists>ch. fst x = RowsGet ch" by auto
  show ?thesis
  proof (cases res)
    case (Inl err)
    with g ne have "d = (Inl err, s1)" "l = (Inl err, s1)"
      by (simp_all add: assms main_abort)
    with trG show ?thesis by auto
  next
    case (Inr mapping)
    let ?m1 = "mapping ++ map_of (assign_dummy_teams (missing_services mapping services))"
    let ?has = "\<lambda>sv. team_of ?m1 sv \<noteq> []"
    let ?no = "\<lambda>sv. team_of ?m1 sv = []"
    let ?fgl = "fill_gaps e False mapping services s1"
    let ?ull = "upsert_loop e False ?m1 (sort services) counters0 (snd ?fgl)"
    from g Inr have g': "get_reference_table_rows_by_id e services sc tc s = (Inr mapping, s1)" by simp
    have dd: "d = (Inr (Summary (counters.extend
          (counters0\<lparr>updated := updated counters0 + length (filter ?has (sort services)),
              skipped := skipped counters0 + length (filter ?no (sort services)),
              missing_team := missing_team counters0 @ filter ?no (sort services)\<rparr>)
          \<lparr>found = length services, rows_created = fst (fst (fill_gaps e True mapping services s1)),
           insert_failures = fst (snd (fst (fill_gaps e True mapping services s1)))\<rparr>)), s1)"
      unfolding assms(1) main_eq [OF ne g'] upsert_loop_dry fill_gaps_dry by simp
    have ll: "l = (Inr (Summary (counters.extend (fst ?ull)
          \<lparr>found = length services, rows_created = fst (fst ?fgl),
           insert_failures = fst (snd (fst ?fgl))\<rparr>)), snd ?ull)"
      unfolding assms(2) main_eq [OF ne g'] by simp
    have a: "\<exists>tr. calls (snd d) = calls s @ tr \<and> (\<forall>x\<in>set tr. \<exists>ch. fst x = RowsGet ch)"
      using trG by (auto simp: dd)
    have b: "\<forall>err. (fst d = Inl err) = (fst l = Inl err)" by (simp add: dd ll)
    have c: "(fst d = Inr NoServices) = (fst l = Inr NoServices)" by (simp add: dd ll)
    have sk: "skipped (fst ?ull) = length (filter ?no (sort services))"
      "missing_team (fst ?ull) = filter ?no (sort services)"
      using upsert_loop_skipped [of e False ?m1 "sort services" counters0 "snd ?fgl"]
      by (simp_all add: counters0_def)
    have up: "updated (fst ?ull) + failures (fst ?ull) = length (filter ?has (sort services))"
      using upsert_loop_attempted [of e ?m1 "sort services" counters0 "snd ?fgl"]
      by (simp add: counters0_def)
    have e: "\<forall>sd sl. fst d = Inr (Summary sd) \<and> fst l = Inr (Summary sl) \<longrightarrow>
           found sd = found sl \<and> skipped sd = skipped sl \<and> missing_team sd = missing_team sl
           \<and> updated sd = updated sl + failures sl \<and> failures sd = 0"
      using sk up by (auto simp: dd ll extend_sel counters0_def)
    from a b c e show ?thesis by blast
  qed
qed

theorem dry_run_projection_witness:
  "fst (main env_gap True ''service'' ''team'' [''e'', ''b'', ''a''] io0)
     = Inr (Summary \<lparr>updated = 2, skipped = 1, failures = 0, missing_team = [''e''],
                    failed_lines = [], found = 3, rows_created = 0, insert_failures = []\<rparr>)
   \<and> fst (main env_gap False ''service'' ''team'' [''e'', ''b'', ''a''] io0)
     = Inr (Summary \<lparr>updated = 1, skipped = 1, failures = 1, missing_team = [''e''],
                    failed_lines = [(''b'', StatusText 500 ''boom'')], found = 3,
                    rows_created = 1, insert_failures = []\<rparr>)
   \<and> updated \<lparr>updated = 2, skipped = 1, failures = 0, missing_team = [''e''],
                    failed_lines = [], found = 3, rows_created = 0, insert_failures = []\<rparr>
      = updated \<lparr>updated = 1, skipped = 1, failures = 1, missing_team = [''e''],
                    failed_lines = [(''b'', StatusText 500 ''boom'')], found = 3,
                    rows_created = 1, insert_failures = []\<rparr>
        + failures \<lparr>updated = 1, skipped = 1, failures = 1, missing_team = [''e''],
                    failed_lines = [(''b'', StatusText 500 ''boom'')], found = 3,
                    rows_created = 1, insert_failures = []\<rparr>
   \<and> calls (snd (main env_gap True ''service'' ''team'' [''e'', ''b'', ''a''] io0))
       = [(RowsGet [''e'', ''b'', ''a''], 200)]"
proof -
  let ?d = "main env_gap True ''service'' ''team'' [''e'', ''b'', ''a''] io0"
  let ?l = "main env_gap False ''service'' ''team'' [''e'', ''b'', ''a''] io0"
  let ?sd = "\<lparr>updated = 2, skipped = 1, failures = 0, missing_team = [''e''],
                    failed_lines = [], found = 3, rows_created = 0, insert_failures = []\<rparr>"
  let ?sl = "\<lparr>updated = 1, skipped = 1, failures = 1, missing_team = [''e''],
                    failed_lines = [(''b'', StatusText 500 ''boom'')], found = 3,
                    rows_created = 1, insert_failures = []\<rparr>"
  have d: "fst ?d = Inr (Summary ?sd)" by (simp add: run_gap_dry)
  have l: "fst ?l = Inr (Summary ?sl)" by (simp add: run_gap_live)
  have c: "calls (snd ?d) = [(RowsGet [''e'', ''b'', ''a''], 200)]" by (simp add: run_gap_dry)
  from dry_run_projection [OF refl refl, of env_gap "''service''" "''team''" "[''e'', ''b'', ''a'']" io0] d l
  have "updated ?sd = updated ?sl + failures ?sl" by blast
  with d l c show ?thesis by blast
qed

text \<open>
  C8 as stated fails where a live upsert fails: the store answers 500 for service
  \<open>b\<close>, the dry run reports updated 2 and failed 0, the live run updated 1 and
  failed 1.
\<close>

theorem dry_run_counts_counterexample:
  "main env_gap True ''service'' ''team'' [''e'', ''b'', ''a''] io0 =
     (Inr (Summary \<lparr>updated = 2, skipped = 1, failures = 0, missing_team = [''e''],
                    failed_lines = [], found = 3, rows_created = 0, insert_failures = []\<rparr>),
      \<lparr>world = (), calls = [(RowsGet [''e'', ''b'', ''a''], 200)]\<rparr>)
   \<and> main env_gap False ''service'' ''team'' [''e'', ''b'', ''a''] io0 =
     (Inr (Summary \<lparr>updated = 1, skipped = 1, failures = 1, missing_team = [''e''],
                    failed_lines = [(''b'', StatusText 500 ''boom'')], found = 3,
                    rows_created = 1, insert_failures = []\<rparr>),
      \<lparr>world = (), calls = [(RowsGet [''e'', ''b'', ''a''], 200), (RowsPost ''b'' ''team 1'', 201),
                            (DefinitionsPost ''a'' ''team 5'', 200), (DefinitionsPost ''b'' ''team 1'', 500)]\<rparr>)"
  by code_simp

subsection \<open>Pagination\<close>

lemma post_events_calls:
  "calls (snd (post_events e c s)) = calls s @ [(EventsSearch c, er_status (fst (post_events e c s)))]"
  by (simp add: post_events_def split: prod.split)

lemma post_events_fst: "fst (post_events e c s) = fst (events_search e (world s) c)"
  by (simp add: post_events_def split: prod.split)

lemma body_outcome:
  "(let page = p + 1
      in if case mpo of None \<Rightarrow> False | Some mp \<Rightarrow> mp < page
         then Some (Inr services, s)
         else let (resp, s1) = post_events e cursor s
              in if er_status resp = 401 then Some (Inl Unauthorized, s1)
                 else if 400 \<le> er_status resp \<and> er_status resp < 600
                      then Some (Inl (HTTPError (er_status resp)), s1)
                      else let services1 = fold extract_event (er_events resp) services
                           in case next_cursor (er_meta resp) of
                              Inl err \<Rightarrow> Some (Inl err, s1)
                              | Inr None \<Rightarrow> Some (Inr services1, s1)
                              | Inr (Some c) \<Rightarrow>
                                  if c = [] then Some (Inr services1, s1)
                                  else f e mpo page (Some c) services1 s1)
   = (if (case mpo of None \<Rightarrow> False | Some mp \<Rightarrow> mp < p + 1) then Some (Inr services, s)
      else case page_outcome (fst (post_events e cursor s)) services of
             Inl r \<Rightarrow> Some (r, snd (post_events e cursor s))
           | Inr c \<Rightarrow> f e mpo (p + 1) (Some c)
                        (fold extract_event (er_events (fst (post_events e cursor s))) services)
                        (snd (post_events e cursor s)))"
  by (simp add: Let_def case_prod_beta page_outcome_def split: sum.split option.split)

lemma events_loop_outcome:
  "events_loop e mpo p cursor services s =
     (if (case mpo of None \<Rightarrow> False | Some mp \<Rightarrow> mp < p + 1) then Some (Inr services, s)
      else case page_outcome (fst (post_events e cursor s)) services of
             Inl r \<Rightarrow> Some (r, snd (post_events e cursor s))
           | Inr c \<Rightarrow> events_loop e mpo (p + 1) (Some c)
                        (fold extract_event (er_events (fst (post_events e cursor s))) services)
                        (snd (post_events e cursor s)))"
  by (subst events_loop.simps) (rule body_outcome)

lemma capped_terminates:
  "nat (mp - p) = n \<Longrightarrow>
   \<exists>r. events_loop e (Some mp) p cursor services s = Some r
      \<and> length (calls (snd r)) \<le> length (calls s) + n"
proof (induction n arbitrary: p cursor services s)
  case 0
  then have "mp < p + 1" by simp
  then show ?case by (subst events_loop_outcome) simp
next
  case (Suc n)
  then have le: "\<not> mp < p + 1" and n: "nat (mp - (p + 1)) = n" by simp_all
  let ?rs = "post_events e cursor s"
  have len: "length (calls (snd ?rs)) = length (calls s) + 1" by (simp add: post_events_calls)
  show ?case
  proof (cases "page_outcome (fst ?rs) services")
    case (Inl r)
    with le len show ?thesis by (subst events_loop_outcome) simp
  next
    case (Inr c)
    from Suc.IH [OF n, of "Some c" "fold extract_event (er_events (fst ?rs)) services" "snd ?rs"] len le Inr
    show ?thesis by (subst events_loop_outcome) auto
  qed
qed

lemma uncapped_as_capped:
  "nat (mp - p) = n \<Longrightarrow>
   events_loop e (Some mp) p cursor services s = Some y \<Longrightarrow>
   length (calls (snd y)) < length (calls s) + n \<Longrightarrow>
   events_loop e None p cursor services s = Some y"
proof (induction n arbitrary: p cursor services s)
  case 0
  then have "mp < p + 1" by simp
  with "0.prems"(2) have "y = (Inr services, s)" by (subst (asm) events_loop_outcome) simp
  with "0.prems"(3) show ?case by simp
next
  case (Suc n)
  then have le: "\<not> mp < p + 1" and n: "nat (mp - (p + 1)) = n" by simp_all
  let ?rs = "post_events e cursor s"
  have len: "length (calls (snd ?rs)) = length (calls s) + 1" by (simp add: post_events_calls)
  show ?case
  proof (cases "page_outcome (fst ?rs) services")
    case (Inl r)
    with le Suc.prems(2) have "y = (r, snd ?rs)" by (subst (asm) events_loop_outcome) simp
    with Inl show ?thesis by (subst events_loop_outcome) simp
  next
    case (Inr c)
    let ?sv = "fold extract_event (er_events (fst ?rs)) services"
    from le Inr Suc.prems(2) have "events_loop e (Some mp) (p + 1) (Some c) ?sv (snd ?rs) = Some y"
      by (subst (asm) events_loop_outcome) simp
    from Suc.IH [OF n this] Suc.prems(3) len
    have "events_loop e None (p + 1) (Some c) ?sv (snd ?rs) = Some y" by simp
    with Inr show ?thesis by (subst events_loop_outcome) simp
  qed
qed

lemma capped_as_uncapped:
  assumes "events_loop e None p cursor services s = Some y"
  shows "\<exists>mp. events_loop e (Some mp) p cursor services s = Some y
           \<and> length (calls (snd y)) < length (calls s) + nat (mp - p)"
proof -
  have "(None :: int option) = None \<longrightarrow>
        (\<exists>mp. events_loop e (Some mp) p cursor services s = Some y
           \<and> length (calls (snd y)) < length (calls s) + nat (mp - p))"
  proof (rule events_loop.raw_induct [where P = "\<lambda>e mpo p cursor services s y. mpo = None \<longrightarrow>
        (\<exists>mp. events_loop e (Some mp) p cursor services s = Some y
           \<and> length (calls (snd y)) < length (calls s) + nat (mp - p))", OF _ assms])
    fix f :: "'a env \<Rightarrow> int option \<Rightarrow> int \<Rightarrow> string option \<Rightarrow> string set \<Rightarrow> 'a io
        \<Rightarrow> ((error + string set) \<times> 'a io) option"
      and e mpo p cursor services s y
    assume IH: "\<And>e mpo p cursor services s y. f e mpo p cursor services s = Some y \<Longrightarrow>
        mpo = None \<longrightarrow> (\<exists>mp. events_loop e (Some mp) p cursor services s = Some y
           \<and> length (calls (snd y)) < length (calls s) + nat (mp - p))"
    assume "(let page = p + 1
      in if case mpo of None \<Rightarrow> False | Some mp \<Rightarrow> mp < page
         then Some (Inr services, s)
         else let (resp, s1) = post_events e cursor s
              in if er_status resp = 401 then Some (Inl Unauthorized, s1)
                 else if 400 \<le> er_status resp \<and> er_status resp < 600
                      then Some (Inl (HTTPError (er_status resp)), s1)
                      else let services1 = fold extract_event (er_events resp) services
                           in case next_cursor (er_meta resp) of
                              Inl err \<Rightarrow> Some (Inl err, s1)
                              | Inr None \<Rightarrow> Some (Inr services1, s1)
                              | Inr (Some c) \<Rightarrow>
                                  if c = [] then Some (Inr services1, s1)
                                  else f e mpo page (Some c) services1 s1) = Some y"
    then have body: "(if (case mpo of None \<Rightarrow> False | Some mp \<Rightarrow> mp < p + 1) then Some (Inr services, s)
      else case page_outcome (fst (post_events e cursor s)) services of
             Inl r \<Rightarrow> Some (r, snd (post_events e cursor s))
           | Inr c \<Rightarrow> f e mpo (p + 1) (Some c)
                        (fold extract_event (er_events (fst (post_events e cursor s))) services)
                        (snd (post_events e cursor s))) = Some y"
      by (simp only: body_outcome)
    let ?rs = "post_events e cursor s"
    let ?sv = "fold extract_event (er_events (fst ?rs)) services"
    have len: "length (calls (snd ?rs)) = length (calls s) + 1" by (simp add: post_events_calls)
    show "mpo = None \<longrightarrow> (\<exists>mp. events_loop e (Some mp) p cursor services s = Some y
           \<and> length (calls (snd y)) < length (calls s) + nat (mp - p))"
    proof
      assume none: "mpo = None"
      show "\<exists>mp. events_loop e (Some mp) p cursor services s = Some y
           \<and> length (calls (snd y)) < length (calls s) + nat (mp - p)"
      proof (cases "page_outcome (fst ?rs) services")
        case (Inl r)
        with body none have y: "y = (r, snd ?rs)" by simp
        have "events_loop e (Some (p + 2)) p cursor services s = Some y"
          by (subst events_loop_outcome) (simp add: Inl y)
        moreover have "length (calls (snd y)) < length (calls s) + nat (p + 2 - p)"
          by (simp add: y len)
        ultimately show ?thesis by blast
      next
        case (Inr c)
        with body none have "f e None (p + 1) (Some c) ?sv (snd ?rs) = Some y" by simp
        from IH [OF this] obtain mp where mp: "events_loop e (Some mp) (p + 1) (Some c) ?sv (snd ?rs) = Some y"
          "length (calls (snd y)) < length (calls (snd ?rs)) + nat (mp - (p + 1))"
          by blast
        have big: "p + 2 \<le> mp"
        proof (rule ccontr)
          assume "\<not> p + 2 \<le> mp"
          then have small: "mp < (p + 1) + 1" by simp
          with mp(1) have "y = (Inr ?sv, snd ?rs)" by (subst (asm) events_loop_outcome) simp
          with mp(2) small show False by simp
        qed
        then have "events_loop e (Some mp) p cursor services s = Some y"
          by (subst events_loop_outcome) (simp add: Inr mp(1))
        moreover from big mp(2) len have "length (calls (snd y)) < length (calls s) + nat (mp - p)"
          by simp
        ultimately show ?thesis by blast
      qed
    qed
  qed
  then show ?thesis by simp
qed

lemma always_cursor_outcome:
  assumes "always_cursor e"
  shows "\<exists>c. c \<noteq> [] \<and> page_outcome (fst (post_events e cursor s)) services = Inr c"
proof -
  let ?r = "fst (events_search e (world s) cursor)"
  from assms obtain c' where "er_status ?r \<noteq> 401" "\<not> (400 \<le> er_status ?r \<and> er_status ?r < 600)"
    "c' \<noteq> []" "er_meta ?r = MetaObj (PageObj (Some c'))"
    unfolding always_cursor_def by blast
  then show ?thesis by (simp add: page_outcome_def post_events_fst)
qed

lemma always_cursor_never:
  assumes "always_cursor e"
  shows "events_loop e None p cursor services s = None"
proof (cases "events_loop e None p cursor services s")
  case None
  then show ?thesis .
next
  case (Some y)
  have "\<not> (always_cursor e \<and> (None :: int option) = None)"
  proof (rule events_loop.raw_induct [where P = "\<lambda>e mpo p cursor services s y. \<not> (always_cursor e \<and> mpo = None)", OF _ Some])
    fix f :: "'a env \<Rightarrow> int option \<Rightarrow> int \<Rightarrow> string option \<Rightarrow> string set \<Rightarrow> 'a io
        \<Rightarrow> ((error + string set) \<times> 'a io) option"
      and e mpo p cursor services s y
    assume IH: "\<And>e mpo p cursor services s y. f e mpo p cursor services s = Some y \<Longrightarrow>
        \<not> (always_cursor e \<and> mpo = None)"
    assume "(let page = p + 1
      in if case mpo of None \<Rightarrow> False | Some mp \<Rightarrow> mp < page
         then Some (Inr services, s)
         else let (resp, s1) = post_events e cursor s
              in if er_status resp = 401 then Some (Inl Unauthorized, s1)
                 else if 400 \<le> er_status resp \<and> er_status resp < 600
                      then Some (Inl (HTTPError (er_status resp)), s1)
                      else let services1 = fold extract_event (er_events resp) services
                           in case next_cursor (er_meta resp) of
                              Inl err \<Rightarrow> Some (Inl err, s1)
                              | Inr None \<Rightarrow> Some (Inr services1, s1)
                              | Inr (Some c) \<Rightarrow>
                                  if c = [] then Some (Inr services1, s1)
                                  else f e mpo page (Some c) services1 s1) = Some y"
    then have body: "(if (case mpo of None \<Rightarrow> False | Some mp \<Rightarrow> mp < p + 1) then Some (Inr services, s)
      else case page_outcome (fst (post_events e cursor s)) services of
             Inl r \<Rightarrow> Some (r, snd (post_events e cursor s))
           | Inr c \<Rightarrow> f e mpo (p + 1) (Some c)
                        (fold extract_event (er_events (fst (post_events e cursor s))) services)
                        (snd (post_events e cursor s))) = Some y"
      by (simp only: body_outcome)
    show "\<not> (always_cursor e \<and> mpo = None)"
    proof
      assume a: "always_cursor e \<and> mpo = None"
      then obtain c where "page_outcome (fst (post_events e cursor s)) services = Inr c"
        using always_cursor_outcome by blast
      with body a have "f e None (p + 1) (Some c)
          (fold extract_event (er_events (fst (post_events e cursor s))) services)
          (snd (post_events e cursor s)) = Some y"
        by simp
      from IH [OF this] a show False by simp
    qed
  qed
  with assms show ?thesis by simp
qed

text \<open>
  C7 (as amended). With \<open>max_pages\<close> set the loop always ends, after at most
  \<open>max_pages\<close> requests; reaching the bound is an early stop that returns the
  services found so far, not an error. Each iteration issues one request carrying the
  current cursor (none on the first page). Status 401 and every status from 400 to 599
  end the loop with an error. After any other response the loop ends with the services
  found when the next cursor is absent (no \<open>meta\<close>, no \<open>page\<close>, no \<open>after\<close>)
  or empty, and otherwise goes on with that cursor. Without \<open>max_pages\<close> the loop
  returns a result exactly when some bounded run returns that result before reaching its
  bound, that is, when the source at some page answers with an error or with no next
  cursor; against a source that answers every request with a success status and a
  non-empty cursor it never ends.
\<close>

theorem pagination_loop:
  assumes "resp = fst (post_events e cursor s)" and "s1 = snd (post_events e cursor s)"
    and "services1 = fold extract_event (er_events resp) services"
  shows "(\<exists>r. events_loop e (Some mp) pg cursor services s = Some r
            \<and> length (calls (snd r)) \<le> length (calls s) + nat (mp - pg))
     \<and> (mp < pg + 1 \<longrightarrow> events_loop e (Some mp) pg cursor services s = Some (Inr services, s))
     \<and> calls s1 = calls s @ [(EventsSearch cursor, er_status resp)]
     \<and> ((case max_pages of None \<Rightarrow> True | Some m \<Rightarrow> pg + 1 \<le> m) \<longrightarrow>
            (er_status resp = 401 \<longrightarrow>
               events_loop e max_pages pg cursor services s = Some (Inl Unauthorized, s1))
          \<and> (er_status resp \<noteq> 401 \<and> 400 \<le> er_status resp \<and> er_status resp < 600 \<longrightarrow>
               events_loop e max_pages pg cursor services s = Some (Inl (HTTPError (er_status resp)), s1))
          \<and> (er_status resp \<noteq> 401 \<and> \<not> (400 \<le> er_status resp \<and> er_status resp < 600) \<longrightarrow>
               (er_meta resp = MetaMissing \<or> er_meta resp = MetaObj PageMissing
                  \<or> er_meta resp = MetaObj (PageObj None) \<or> er_meta resp = MetaObj (PageObj (Some [])) \<longrightarrow>
                  events_loop e max_pages pg cursor services s = Some (Inr services1, s1))
             \<and> (\<forall>c. er_meta resp = MetaObj (PageObj (Some c)) \<and> c \<noteq> [] \<longrightarrow>
                  events_loop e max_pages pg cursor services s
                    = events_loop e max_pages (pg + 1) (Some c) services1 s1)))
     \<and> (events_loop e None pg cursor services s = Some y \<longleftrightarrow>
           (\<exists>mp. events_loop e (Some mp) pg cursor services s = Some y
              \<and> length (calls (snd y)) < length (calls s) + nat (mp - pg)))
     \<and> (always_cursor e \<longrightarrow> events_loop e None pg cursor services s = None)
     \<and> list_services_from_events e max_pages s = events_loop e max_pages 0 None {} s"
proof -
  have a: "\<exists>r. events_loop e (Some mp) pg cursor services s = Some r
            \<and> length (calls (snd r)) \<le> length (calls s) + nat (mp - pg)"
    by (rule capped_terminates [OF refl])
  have b: "mp < pg + 1 \<longrightarrow> events_loop e (Some mp) pg cursor services s = Some (Inr services, s)"
    by (subst events_loop_outcome) simp
  have c: "calls s1 = calls s @ [(EventsSearch cursor, er_status resp)]"
    by (simp add: assms post_events_calls)
  have d: "(case max_pages of None \<Rightarrow> True | Some m \<Rightarrow> pg + 1 \<le> m) \<longrightarrow>
            (er_status resp = 401 \<longrightarrow>
               events_loop e max_pages pg cursor services s = Some (Inl Unauthorized, s1))
          \<and> (er_status resp \<noteq> 401 \<and> 400 \<le> er_status resp \<and> er_status resp < 600 \<longrightarrow>
               events_loop e max_pages pg cursor services s = Some (Inl (HTTPError (er_status resp)), s1))
          \<and> (er_status resp \<noteq> 401 \<and> \<not> (400 \<le> er_status resp \<and> er_status resp < 600) \<longrightarrow>
               (er_meta resp = MetaMissing \<or> er_meta resp = MetaObj PageMissing
                  \<or> er_meta resp = MetaObj (PageObj None) \<or> er_meta resp = MetaObj (PageObj (Some [])) \<longrightarrow>
                  events_loop e max_pages pg cursor services s = Some (Inr services1, s1))
             \<and> (\<forall>c. er_meta resp = MetaObj (PageObj (Some c)) \<and> c \<noteq> [] \<longrightarrow>
                  events_loop e max_pages pg cursor services s
                    = events_loop e max_pages (pg + 1) (Some c) services1 s1))"
  proof
    assume "case max_pages of None \<Rightarrow> True | Some m \<Rightarrow> pg + 1 \<le> m"
    then have nc: "\<not> (case max_pages of None \<Rightarrow> False | Some mp \<Rightarrow> mp < pg + 1)"
      by (simp split: option.splits)
    have loop: "events_loop e max_pages pg cursor services s =
        (case page_outcome resp services of
           Inl r \<Rightarrow> Some (r, s1)
         | Inr c \<Rightarrow> events_loop e max_pages (pg + 1) (Some c) services1 s1)"
      using nc unfolding assms by (subst events_loop_outcome) simp
    show "(er_status resp = 401 \<longrightarrow>
               events_loop e max_pages pg cursor services s = Some (Inl Unauthorized, s1))
          \<and> (er_status resp \<noteq> 401 \<and> 400 \<le> er_status resp \<and> er_status resp < 600 \<longrightarrow>
               events_loop e max_pages pg cursor services s = Some (Inl (HTTPError (er_status resp)), s1))
          \<and> (er_status resp \<noteq> 401 \<and> \<not> (400 \<le> er_status resp \<and> er_status resp < 600) \<longrightarrow>
               (er_meta resp = MetaMissing \<or> er_meta resp = MetaObj PageMissing
                  \<or> er_meta resp = MetaObj (PageObj None) \<or> er_meta resp = MetaObj (PageObj (Some [])) \<longrightarrow>
                  events_loop e max_pages pg cursor services s = Some (Inr services1, s1))
             \<and> (\<forall>c. er_meta resp = MetaObj (PageObj (Some c)) \<and> c \<noteq> [] \<longrightarrow>
                  events_loop e max_pages pg cursor services s
                    = events_loop e max_pages (pg + 1) (Some c) services1 s1))"
      unfolding loop by (auto simp: page_outcome_def assms(3))
  qed
  have f: "events_loop e None pg cursor services s = Some y \<longleftrightarrow>
           (\<exists>mp. events_loop e (Some mp) pg cursor services s = Some y
              \<and> length (calls (snd y)) < length (calls s) + nat (mp - pg))"
    using uncapped_as_capped [OF refl] capped_as_uncapped by blast
  have g: "always_cursor e \<longrightarrow> events_loop e None pg cursor services s = None"
    using always_cursor_never by blast
  have h: "list_services_from_events e max_pages s = events_loop e max_pages 0 None {} s"
    by (simp add: list_services_from_events_def)
  from a b c d f g h show ?thesis by blast
qed

lemma two_pages_capped:
  "events_loop env_two_pages (Some 5) 0 None {} io0
     = Some (Inr {''web'', ''db''}, \<lparr>world = (), calls = [(EventsSearch None, 200), (EventsSearch (Some ''p2''), 200)]\<rparr>)"
  by code_simp

lemma two_pages_stop:
  "events_loop env_two_pages (Some 1) 0 None {} io0
     = Some (Inr {''web''}, \<lparr>world = (), calls = [(EventsSearch None, 200)]\<rparr>)"
  by code_simp

lemma env_forever_always: "always_cursor env_forever"
  by (simp add: always_cursor_def env_forever_def stateless_def)

theorem pagination_loop_witness:
  "events_loop env_two_pages (Some 5) 0 None {} io0
     = Some (Inr {''web'', ''db''}, \<lparr>world = (), calls = [(EventsSearch None, 200), (EventsSearch (Some ''p2''), 200)]\<rparr>)
   \<and> length (calls \<lparr>world = (), calls = [(EventsSearch None, 200), (EventsSearch (Some ''p2''), 200)]\<rparr>)
       < length (calls io0) + nat (5 - 0)
   \<and> list_services_from_events env_two_pages None io0
     = Some (Inr {''web'', ''db''}, \<lparr>world = (), calls = [(EventsSearch None, 200), (EventsSearch (Some ''p2''), 200)]\<rparr>)
   \<and> (0::int) < 0 + 1
   \<and> events_loop env_two_pages (Some 0) 0 None {} io0 = Some (Inr {}, io0)
   \<and> list_services_from_events env_two_pages (Some 1) io0
     = Some (Inr {''web''}, \<lparr>world = (), calls = [(EventsSearch None, 200)]\<rparr>)
   \<and> always_cursor env_forever
   \<and> events_loop env_forever None 0 None {} io0 = None"
proof -
  let ?s2 = "\<lparr>world = (), calls = [(EventsSearch None, 200), (EventsSearch (Some ''p2''), 200)]\<rparr> :: unit io"
  let ?y = "(Inr {''web'', ''db''}, ?s2) :: (error + string set) \<times> unit io"
  have h1: "length (calls ?s2) < length (calls io0) + nat (5 - 0)" by (simp add: io0_def)
  then have h1': "length (calls (snd ?y)) < length (calls io0) + nat (5 - 0)" by simp
  note t = pagination_loop [OF refl refl refl, where e = env_two_pages and cursor = None and services = "{}"
      and s = io0 and pg = 0 and y = ?y and max_pages = None]
  from t [where mp = 5] two_pages_capped h1'
  have u: "events_loop env_two_pages None 0 None {} io0 = Some ?y" by blast
  from t [where mp = 0]
  have z: "events_loop env_two_pages (Some 0) 0 None {} io0 = Some (Inr {}, io0)" by simp
  from u have u': "list_services_from_events env_two_pages None io0 = Some ?y"
    by (simp add: list_services_from_events_def)
  have w: "list_services_from_events env_two_pages (Some 1) io0
     = Some (Inr {''web''}, \<lparr>world = (), calls = [(EventsSearch None, 200)]\<rparr>)"
    by (simp add: list_services_from_events_def two_pages_stop)
  from pagination_loop [OF refl refl refl, where e = env_forever and cursor = None and services = "{}"
      and s = io0 and pg = 0] env_forever_always
  have v: "events_loop env_forever None 0 None {} io0 = None" by blast
  from two_pages_capped h1 u' z w env_forever_always v show ?thesis by simp
qed

text \<open>
  C7 as stated fails: without \<open>max_pages\<close>, against a source that answers every
  request with a non-empty cursor, the loop never ends.
\<close>

theorem pagination_forever_counterexample:
  "list_services_from_events env_forever None io0 = None"
  unfolding list_services_from_events_def
  by (rule always_cursor_never [OF env_forever_always])

subsection \<open>Empty teams\<close>















end
